theory Spec2Isabelle
  imports Main "HOL-Library.Sublist"
begin

section \<open>Byte strings\<close>

text \<open>
  Go's \<^verbatim>\<open>[]byte\<close> and \<^verbatim>\<open>string\<close> are sequences of bytes; they are modelled as
  \<^typ>\<open>string\<close> (a list of 8-bit characters).  The functions of this section are
  the ones of Go's \<^verbatim>\<open>bytes\<close> and \<^verbatim>\<open>strings\<close> packages that the wrapper calls.
\<close>

text \<open>\<^verbatim>\<open>bytes.Index\<close> / \<^verbatim>\<open>strings.Index\<close>: the offset of the first occurrence of
  \<open>sep\<close>; Go's \<open>-1\<close> is \<open>None\<close>.\<close>

fun Index :: "string \<Rightarrow> string \<Rightarrow> nat option" where
  "Index [] sep = (if sep = [] then Some 0 else None)"
| "Index (c # s) sep =
     (if prefix sep (c # s) then Some 0 else map_option Suc (Index s sep))"

text \<open>\<^verbatim>\<open>bytes.Contains(b, sub)\<close> is \<^verbatim>\<open>Index(b, sub) != -1\<close>.\<close>

definition Contains :: "string \<Rightarrow> string \<Rightarrow> bool" where
  "Contains b sub = (Index b sub \<noteq> None)"

text \<open>\<^verbatim>\<open>bytes.Replace(s, old, new, n)\<close> for a non-empty \<open>old\<close> and \<open>n \<ge> 0\<close>: the
  first \<open>n\<close> non-overlapping occurrences of \<open>old\<close> are replaced by \<open>new\<close>.\<close>

primrec Replace :: "string \<Rightarrow> string \<Rightarrow> string \<Rightarrow> nat \<Rightarrow> string" where
  "Replace s old new 0 = s"
| "Replace s old new (Suc n) =
     (case Index s old of
        None \<Rightarrow> s
      | Some i \<Rightarrow> take i s @ new @ Replace (drop (i + length old) s) old new n)"

text \<open>\<^verbatim>\<open>strings.TrimRight(s, cutset)\<close>: all trailing bytes contained in the cutset
  are removed (the cutsets used are ASCII).\<close>

definition TrimRight :: "string \<Rightarrow> string \<Rightarrow> string" where
  "TrimRight s cutset = rev (dropWhile (\<lambda>c. c \<in> set cutset) (rev s))"

section \<open>Regular expressions with leftmost-first matching\<close>

text \<open>
  Go's \<^verbatim>\<open>regexp\<close> package finds the leftmost match and, among the matches starting
  there, the one a backtracking search finds first (greedy operators try the longer
  alternative first).  The syntax tree has the operators the pattern of
  \<^verbatim>\<open>trzszRegexp\<close> uses.  A thread of the search is the rest of the input together
  with the capture groups recorded so far; \<open>matches r\<close> lists the threads that are
  left after \<open>r\<close> has matched a prefix of the input, in the order of preference.
\<close>

datatype regex =
    Literal string
  | CharClass "char list"
  | Concat regex regex
  | Plus regex
  | Quest regex
  | Capture nat regex

type_synonym captures = "nat \<rightharpoonup> string"
type_synonym thread = "string \<times> captures"

text \<open>One or more repetitions, the longer ones first.  A repetition that consumes
  nothing is not iterated again, so the number of rounds is bounded by the length of
  the input, which is the fuel \<open>matches\<close> passes.\<close>

primrec plus_loop :: "(thread \<Rightarrow> thread list) \<Rightarrow> nat \<Rightarrow> thread \<Rightarrow> thread list" where
  "plus_loop f 0 st = []"
| "plus_loop f (Suc k) st =
     concat (map (\<lambda>st'. (if length (fst st') < length (fst st)
                          then plus_loop f k st' else []) @ [st']) (f st))"

fun matches :: "regex \<Rightarrow> thread \<Rightarrow> thread list" where
  "matches (Literal l) (s, c) = (if prefix l s then [(drop (length l) s, c)] else [])"
| "matches (CharClass cs) (s, c) =
     (case s of [] \<Rightarrow> [] | x # xs \<Rightarrow> if x \<in> set cs then [(xs, c)] else [])"
| "matches (Concat r1 r2) st = concat (map (matches r2) (matches r1 st))"
| "matches (Plus r) st = plus_loop (matches r) (Suc (length (fst st))) st"
| "matches (Quest r) st = matches r st @ [st]"
| "matches (Capture n r) (s, c) =
     map (\<lambda>(s', c'). (s', c'(n \<mapsto> take (length s - length s') s))) (matches r (s, c))"

text \<open>The leftmost match: the first thread of the search at the first offset where
  the search succeeds; the result is the matched text and the capture groups.\<close>

fun find_leftmost :: "regex \<Rightarrow> string \<Rightarrow> (string \<times> captures) option" where
  "find_leftmost r [] =
     (case matches r ([], Map.empty) of
        [] \<Rightarrow> None
      | (s', c) # _ \<Rightarrow> Some ([], c))"
| "find_leftmost r (x # xs) =
     (case matches r (x # xs, Map.empty) of
        [] \<Rightarrow> find_leftmost r xs
      | (s', c) # _ \<Rightarrow> Some (take (length (x # xs) - length s') (x # xs), c))"

primrec NumSubexp :: "regex \<Rightarrow> nat" where
  "NumSubexp (Literal l) = 0"
| "NumSubexp (CharClass cs) = 0"
| "NumSubexp (Concat r1 r2) = max (NumSubexp r1) (NumSubexp r2)"
| "NumSubexp (Plus r) = NumSubexp r"
| "NumSubexp (Quest r) = NumSubexp r"
| "NumSubexp (Capture n r) = max n (NumSubexp r)"

text \<open>\<^verbatim>\<open>(*Regexp).FindSubmatch\<close>: \<^verbatim>\<open>nil\<close> (the empty list) when there is no match;
  otherwise the matched text followed by one entry per capture group, \<^verbatim>\<open>nil\<close>
  (\<open>None\<close>) for a group that took no part in the match.\<close>

definition FindSubmatch :: "regex \<Rightarrow> string \<Rightarrow> string option list" where
  "FindSubmatch r b =
     (case find_leftmost r b of
        None \<Rightarrow> []
      | Some (whole, c) \<Rightarrow> Some whole # map c [1..<Suc (NumSubexp r)])"

text \<open>\<^verbatim>\<open>string(b)\<close> of a possibly \<^verbatim>\<open>nil\<close> slice.\<close>

definition string_of :: "string option \<Rightarrow> string" where
  "string_of b = (case b of None \<Rightarrow> [] | Some s \<Rightarrow> s)"

section \<open>The wrapper's trigger detector (trzsz.go)\<close>

definition digit :: regex where
  "digit = CharClass ''0123456789''"

text \<open>The pattern \<^verbatim>\<open>::TRZSZ:TRANSFER:([SR]):(\d+\.\d+\.\d+)(:\d+)?\<close>, as
  \<^verbatim>\<open>regexp.MustCompile\<close> parses it: \<open>version_re\<close> is the body of the second
  group and \<open>flag_re\<close> the body of the optional third one.\<close>

definition version_re :: regex where
  "version_re =
     Concat (Plus digit) (Concat (Literal ''.'')
    (Concat (Plus digit) (Concat (Literal ''.'') (Plus digit))))"

definition flag_re :: regex where
  "flag_re = Concat (Literal '':'') (Plus digit)"

definition trzszRegexp :: regex where
  "trzszRegexp =
     Concat (Literal ''::TRZSZ:TRANSFER:'')
    (Concat (Capture 1 (CharClass ''SR''))
    (Concat (Literal '':'')
    (Concat (Capture 2 version_re) (Quest (Capture 3 flag_re)))))"

datatype panic = IndexOutOfRange

text \<open>\<^verbatim>\<open>detectTrzsz\<close> returns \<^verbatim>\<open>(*byte, bool)\<close>; \<^verbatim>\<open>&match[1][0]\<close> panics when the
  first group is empty, which is a branch of the model.\<close>

definition detectTrzsz :: "string \<Rightarrow> panic + (char option \<times> bool)" where
  "detectTrzsz output =
     (if \<not> Contains output ''::TRZSZ:TRANSFER:'' then Inr (None, False)
      else let match = FindSubmatch trzszRegexp output in
        if length match < 2 then Inr (None, False)
        else let remoteIsWindows = (length match > 3 \<and> string_of (match ! 3) = '':1'') in
          (case string_of (match ! 1) of
             [] \<Rightarrow> Inl IndexOutOfRange
           | b # _ \<Rightarrow> Inr (Some b, remoteIsWindows)))"

section \<open>The wrapper's configuration file and file picker (trzsz.go)\<close>

datatype error = ErrCanceled | Err string

text \<open>
  What \<^verbatim>\<open>getTrzszConfig\<close> and \<^verbatim>\<open>chooseDownloadPath\<close> obtain from the operating system
  and from libraries: the home directory (\<open>None\<close> when \<^verbatim>\<open>os.UserHomeDir\<close> fails),
  \<^verbatim>\<open>filepath.Join\<close>, the lines \<^verbatim>\<open>bufio.Scanner\<close> yields for a path (\<open>None\<close> when
  \<^verbatim>\<open>os.Open\<close> fails), \<^verbatim>\<open>strings.TrimSpace\<close>, and the answer of the directory picker
  \<^verbatim>\<open>zenity.SelectFile\<close>.
\<close>

record os_env =
  UserHomeDir :: "string option"
  Join :: "string \<Rightarrow> string \<Rightarrow> string"
  OpenLines :: "string \<Rightarrow> string list option"
  TrimSpace :: "string \<Rightarrow> string"
  SelectFile :: "error + string"

text \<open>The body of \<^verbatim>\<open>for scanner.Scan()\<close>, one line per round.\<close>

fun scanConfig :: "(string \<Rightarrow> string) \<Rightarrow> string \<Rightarrow> string list \<Rightarrow> string option" where
  "scanConfig trim name [] = None"
| "scanConfig trim name (line # rest) =
     (case Index line ''='' of
        None \<Rightarrow> scanConfig trim name rest
      | Some idx \<Rightarrow>
          if trim (take idx line) = name then
            (let v = trim (drop (idx + 1) line) in
             if length v = 0 then None else Some v)
          else scanConfig trim name rest)"

definition getTrzszConfig :: "os_env \<Rightarrow> string \<Rightarrow> string option" where
  "getTrzszConfig env name =
     (case UserHomeDir env of
        None \<Rightarrow> None
      | Some home \<Rightarrow>
          (case OpenLines env (Join env home ''.trzsz.conf'') of
             None \<Rightarrow> None
           | Some lines \<Rightarrow> scanConfig (TrimSpace env) name lines))"

text \<open>\<^verbatim>\<open>chooseDownloadPath\<close>; the first component tells whether the picker was opened.\<close>

definition chooseDownloadPath :: "os_env \<Rightarrow> bool \<times> (error + string)" where
  "chooseDownloadPath env =
     (case getTrzszConfig env ''DefaultDownloadPath'' of
        Some savePath \<Rightarrow> (False, Inr savePath)
      | None \<Rightarrow>
          (True,
           case SelectFile env of
             Inl err \<Rightarrow> Inl err
           | Inr path \<Rightarrow> if length path = 0 then Inl ErrCanceled else Inr path))"

text \<open>\<^verbatim>\<open>strings.TrimSpace\<close> on ASCII text: the bytes tab, line feed, vertical tab, form
  feed, carriage return and space are removed at both ends.\<close>

definition asciiSpace :: "char \<Rightarrow> bool" where
  "asciiSpace c = (c \<in> set [CHR 0x09, CHR 0x0A, CHR 0x0B, CHR 0x0C, CHR 0x0D, CHR 0x20])"

definition TrimSpaceASCII :: "string \<Rightarrow> string" where
  "TrimSpaceASCII s = rev (dropWhile asciiSpace (rev (dropWhile asciiSpace s)))"

section \<open>The wrapper's pumps and signal handler (trzsz.go)\<close>

text \<open>
  The globals of the wrapper.  \<^verbatim>\<open>gTransfer\<close> is a pointer to the transfer in progress;
  the transfer object is identified by a number.
\<close>

type_synonym TrzszTransfer = nat

record globals =
  gDragFiles :: "string list option"
  gDragHasDir :: bool
  gInterrupting :: bool
  gTransfer :: "TrzszTransfer option"

text \<open>
  The effects of the pumps, in the order in which they happen: writes to the local
  terminal (\<^verbatim>\<open>os.Stdout\<close>) and to the child's PTY (\<^verbatim>\<open>pty.Stdin\<close>), the calls of the
  methods of the transfer (\<^verbatim>\<open>addReceivedData\<close> appends its argument to the receive
  queue of the transfer, \<^verbatim>\<open>stopTransferringFiles\<close> cancels it), and the goroutines
  started with \<^verbatim>\<open>go\<close>.
\<close>

datatype goroutine = handleTrzsz char bool | uploadDragFiles

datatype event =
    StdoutWrite string
  | StdoutClose
  | PtyStdinWrite string
  | PtyStdinClose
  | PtyTerminate
  | addReceivedData TrzszTransfer string
  | stopTransferringFiles TrzszTransfer
  | Go goroutine
  | Panic panic

datatype io_error = EOF | OtherError

text \<open>A \<^verbatim>\<open>Read(buffer)\<close> returns \<^verbatim>\<open>(n, err)\<close>; it is modelled by the bytes \<^verbatim>\<open>buffer[0:n]\<close>
  and the error (\<open>None\<close> is \<^verbatim>\<open>nil\<close>), so \<open>n\<close> is the length of the data.\<close>

type_synonym read_result = "string \<times> io_error option"

datatype loop_ctl = Continue | Break | Crash

text \<open>Helpers of the repository that are defined outside the two files at hand, taken
  as parameters.\<close>

record helpers =
  IsWindows :: bool
  detectDragFiles :: "string \<Rightarrow> string list option \<times> bool"
  trimVT100 :: "string \<Rightarrow> string"

text \<open>One round of the loop of \<^verbatim>\<open>wrapInput\<close>.\<close>

definition wrapInput_body ::
    "helpers \<Rightarrow> bool \<Rightarrow> read_result \<Rightarrow> globals \<Rightarrow> event list \<times> globals \<times> loop_ctl" where
  "wrapInput_body h dragFile r g =
     (case r of (data, err) \<Rightarrow>
        if err = Some EOF \<and> \<not> IsWindows h then ([PtyStdinClose], g, Break)
        else
          let buf = (if err = Some EOF then [CHR 0x1A] else data);
              err = (if err = Some EOF then None else err)
          in
          if err = None \<and> length buf > 0 then
            (case gTransfer g of
               Some transfer \<Rightarrow>
                 ((if hd buf = CHR 0x03 then [stopTransferringFiles transfer] else []),
                  g, Continue)
             | None \<Rightarrow>
                 if dragFile then
                   (case detectDragFiles h buf of
                      (Some dragFiles, hasDir) \<Rightarrow>
                        (case gDragFiles g of
                           None \<Rightarrow>
                             ([Go uploadDragFiles],
                              g\<lparr>gDragFiles := Some dragFiles, gDragHasDir := hasDir\<rparr>,
                              Continue)
                         | Some old \<Rightarrow>
                             ([],
                              g\<lparr>gDragFiles := Some (old @ dragFiles),
                                gDragHasDir := (gDragHasDir g \<or> hasDir)\<rparr>,
                              Continue))
                    | (None, hasDir) \<Rightarrow>
                        ([PtyStdinWrite buf],
                         (if gDragFiles g \<noteq> None
                          then g\<lparr>gDragFiles := None, gDragHasDir := False\<rparr> else g),
                         Continue))
                 else ([PtyStdinWrite buf], g, Continue))
          else ([], g, Continue))"

text \<open>One round of the loop of \<^verbatim>\<open>wrapOutput\<close>.  The fresh buffer allocated after
  \<^verbatim>\<open>addReceivedData\<close> keeps later reads from overwriting the queued bytes; with
  values instead of slices there is nothing to do.\<close>

definition wrapOutput_body ::
    "helpers \<Rightarrow> bool \<Rightarrow> read_result \<Rightarrow> globals \<Rightarrow> event list \<times> globals \<times> loop_ctl" where
  "wrapOutput_body h dragFile r g =
     (case r of (buf, err) \<Rightarrow>
        if err = Some EOF then ([StdoutClose], g, Break)
        else if err = None \<and> length buf > 0 then
          (case gTransfer g of
             Some transfer \<Rightarrow> ([addReceivedData transfer buf], g, Continue)
           | None \<Rightarrow>
               (case detectTrzsz buf of
                  Inl p \<Rightarrow> ([Panic p], g, Crash)
                | Inr (Some mode, remoteIsWindows) \<Rightarrow>
                    ([StdoutWrite (Replace buf ''TRZSZ'' ''TRZSZGO'' 1),
                      Go (handleTrzsz mode remoteIsWindows)], g, Continue)
                | Inr (None, remoteIsWindows) \<Rightarrow>
                    if gInterrupting g then ([], g, Continue)
                    else if dragFile \<and> gDragFiles g \<noteq> None then
                      (let output = TrimRight (trimVT100 h buf) [CHR 0x0D, CHR 0x0A] in
                       if output = ''trz'' then ([StdoutWrite [CHR 0x0D, CHR 0x0A]], g, Continue)
                       else if output = [] \<or> output = [CHR 0x22] then ([], g, Continue)
                       else ([StdoutWrite buf], g, Continue))
                    else ([StdoutWrite buf], g, Continue)))
        else ([], g, Continue))"

text \<open>The pumps: the rounds for a sequence of reads, until a round leaves the loop.
  When the reads are used up the pump is blocked in \<^verbatim>\<open>Read\<close>.\<close>

fun pump ::
    "(read_result \<Rightarrow> globals \<Rightarrow> event list \<times> globals \<times> loop_ctl) \<Rightarrow>
     read_result list \<Rightarrow> globals \<Rightarrow> event list \<times> globals" where
  "pump body [] g = ([], g)"
| "pump body (r # rs) g =
     (case body r g of
        (es, g', Continue) \<Rightarrow> (case pump body rs g' of (es', g'') \<Rightarrow> (es @ es', g''))
      | (es, g', _) \<Rightarrow> (es, g'))"


definition wrapOutput :: "helpers \<Rightarrow> bool \<Rightarrow> read_result list \<Rightarrow> globals \<Rightarrow> event list \<times> globals" where
  "wrapOutput h dragFile = pump (wrapOutput_body h dragFile)"

text \<open>\<^verbatim>\<open>handleSignal\<close>: what the goroutine waiting on \<^verbatim>\<open>sigint\<close> does for one delivery of
  the interrupt signal, and what the one waiting on \<^verbatim>\<open>sigterm\<close> does for the
  terminate signal.\<close>

definition handleSigint :: "globals \<Rightarrow> event list" where
  "handleSigint g =
     (case gTransfer g of
        Some transfer \<Rightarrow> [stopTransferringFiles transfer]
      | None \<Rightarrow> [])"

definition handleSigterm :: "globals \<Rightarrow> event list" where
  "handleSigterm g = [PtyTerminate]"

section \<open>The sender (tsz.go)\<close>

subsection \<open>Integers and formatting\<close>

text \<open>Go's \<^verbatim>\<open>int64\<close>: the result of an arithmetic operation wraps around.\<close>

definition int64 :: "int \<Rightarrow> int" where
  "int64 x = (x + 2 ^ 63) mod 2 ^ 64 - 2 ^ 63"

text \<open>Go's \<^verbatim>\<open>%\<close> truncates towards zero: the remainder has the sign of the dividend.\<close>

definition go_rem :: "int \<Rightarrow> int \<Rightarrow> int" where
  "go_rem a b = sgn a * (\<bar>a\<bar> mod \<bar>b\<bar>)"

text \<open>The decimal digits of a natural number, as \<^verbatim>\<open>%d\<close> prints them.\<close>

fun decimal :: "nat \<Rightarrow> string" where
  "decimal n =
     (if n < 10 then [''0123456789'' ! n]
      else decimal (n div 10) @ [''0123456789'' ! (n mod 10)])"

declare decimal.simps [simp del]

text \<open>\<^verbatim>\<open>fmt.Sprintf("%013d", x)\<close>: the sign of a negative number, then zeros up to the
  width of 13 characters (the sign included), then the digits.\<close>

definition fmt_013d :: "int \<Rightarrow> string" where
  "fmt_013d x =
     (if x < 0
      then CHR ''-'' # replicate (12 - length (decimal (nat (- x)))) CHR ''0'' @ decimal (nat (- x))
      else replicate (13 - length (decimal (nat x))) CHR ''0'' @ decimal (nat x))"

subsection \<open>Data\<close>

text \<open>The fields of \<^verbatim>\<open>baseArgs\<close> and \<^verbatim>\<open>tszArgs\<close> that tsz.go reads.\<close>

record baseArgs =
  Overwrite :: bool
  Binary :: bool
  Directory :: bool

record tszArgs = baseArgs +
  File :: "string list"

text \<open>Modelled from the spec: the type \<^verbatim>\<open>trzszFile\<close> is declared outside the files at
  hand; the spec's FileRecord has an absolute path, a display name, a relative path,
  a size in bytes and an is-directory flag.\<close>

record trzszFile =
  absPath :: string
  displayName :: string
  relPath :: string
  fileSize :: nat
  isDir :: bool

text \<open>The fields of the ACT frame (\<^verbatim>\<open>transferAction\<close>) that tsz.go reads.\<close>

record transferAction =
  Confirm :: bool
  SupportBinary :: bool
  SupportDirectory :: bool

datatype tmuxModeType = noTmux | tmuxNormalMode | tmuxControlMode

text \<open>
  What the sender obtains from outside: the results of the helpers of the repository
  defined elsewhere (\<^verbatim>\<open>checkPathsReadable\<close>, \<^verbatim>\<open>checkTmux\<close>, which yields the mode, the
  real stdout and the pane width, \<^verbatim>\<open>isRunningOnWindows\<close>, \<^verbatim>\<open>enableVirtualTerminal\<close>,
  \<^verbatim>\<open>getTerminalColumns\<close>, the
  constant \<^verbatim>\<open>kTrzszVersion\<close>), the clock, \<^verbatim>\<open>term.MakeRaw\<close>, and the results of the
  transfer's methods, which depend on the peer (\<open>None\<close> is a \<^verbatim>\<open>nil\<close> error).
\<close>

record tsz_env =
  checkPathsReadable :: "string list \<Rightarrow> bool \<Rightarrow> error + trzszFile list"
  checkTmux :: "error + (tmuxModeType \<times> nat \<times> int)"
  isRunningOnWindows :: bool
  enableVirtualTerminal :: "error option"
  getTerminalColumns :: int
  kTrzszVersion :: string
  UnixMilli :: int
  MakeRaw :: "error option"
  recvAction :: "error + transferAction"
  sendConfig :: "error option"
  transfer_sendFiles :: "error + string list"
  recvExit :: "error + string"

text \<open>Modelled from the spec: \<^verbatim>\<open>checkDuplicateNames\<close> is defined outside the files at
  hand; by the spec it fails if two FileRecords would land at the same display name.\<close>

definition checkDuplicateNames :: "trzszFile list \<Rightarrow> error option" where
  "checkDuplicateNames files =
     (if distinct (map displayName files) then None else Some (Err ''Duplicate name''))"

text \<open>
  The effects of the sender, in order: lines on stderr, writes to stdout, and the calls
  of the transfer's methods.  \<open>SendConfig\<close> carries the arguments of \<^verbatim>\<open>sendConfig\<close>, from
  which the CFG frame is built; \<open>ServerExit\<close> is \<^verbatim>\<open>serverExit(msg)\<close>, the sender's EXIT;
  \<open>ServerError\<close> is \<^verbatim>\<open>serverError(err)\<close>.
\<close>

datatype tsz_event =
    Stderr error
  | Stdout string
  | StdoutSync
  | EnableVirtualTerminal
  | ResetVirtualTerminal
  | SetupConsoleOutput
  | TermMakeRaw
  | TermRestore
  | NewTransfer nat
  | GoWrapStdinInput
  | HandleServerSignal
  | RecvAction
  | SendConfig baseArgs transferAction tmuxModeType int
  | SendFiles "trzszFile list"
  | RecvExit
  | ServerExit string
  | ServerError error

subsection \<open>sendFiles\<close>

text \<open>The result is the effects and the error returned (\<open>None\<close> is \<^verbatim>\<open>nil\<close>).\<close>

definition sendFiles ::
    "tsz_env \<Rightarrow> trzszFile list \<Rightarrow> tszArgs \<Rightarrow> tmuxModeType \<Rightarrow> int \<Rightarrow> tsz_event list \<times> error option" where
  "sendFiles env files args tmuxMode tmuxPaneWidth =
     (case recvAction env of
        Inl err \<Rightarrow> ([RecvAction], Some err)
      | Inr action \<Rightarrow>
          if \<not> Confirm action then ([RecvAction, ServerExit ''Cancelled''], None)
          else
            let args = (if Binary args \<and> \<not> SupportBinary action
                        then args\<lparr>Binary := False\<rparr> else args)
            in
            if Directory args \<and> \<not> SupportDirectory action
            then ([RecvAction], Some (Err ''The client doesn't support transfer directory''))
            else
              let cfg = SendConfig (baseArgs.truncate args) action tmuxMode tmuxPaneWidth in
              (case sendConfig env of
                 Some err \<Rightarrow> ([RecvAction, cfg], Some err)
               | None \<Rightarrow>
                   (case transfer_sendFiles env of
                      Inl err \<Rightarrow> ([RecvAction, cfg, SendFiles files], Some err)
                    | Inr names \<Rightarrow>
                        (case recvExit env of
                           Inl err \<Rightarrow> ([RecvAction, cfg, SendFiles files, RecvExit], Some err)
                         | Inr msg \<Rightarrow>
                             ([RecvAction, cfg, SendFiles files, RecvExit, ServerExit msg],
                              None)))))"

subsection \<open>TszMain\<close>

text \<open>The trigger marker \<^verbatim>\<open>"\x1b7\x07::TRZSZ:TRANSFER:S:%s:%013d\r\n"\<close>.\<close>

definition marker :: "string \<Rightarrow> int \<Rightarrow> string" where
  "marker version uniqueID =
     [CHR 0x1B, CHR ''7'', CHR 0x07] @ ''::TRZSZ:TRANSFER:S:'' @ version @ '':'' @
     fmt_013d uniqueID @ [CHR 0x0D, CHR 0x0A]"

text \<open>\<^verbatim>\<open>uniqueID\<close>: \<^verbatim>\<open>(time.Now().UnixMilli() % 10e10) * 100\<close>, plus 10 on Windows and
  plus 20 in a tmux pane (normal mode).\<close>

definition uniqueID :: "tsz_env \<Rightarrow> tmuxModeType \<Rightarrow> int" where
  "uniqueID env tmuxMode =
     (let uid = int64 (go_rem (UnixMilli env) 100000000000 * 100) in
      if isRunningOnWindows env then int64 (uid + 10)
      else if tmuxMode = tmuxNormalMode then int64 (uid + 20)
      else uid)"

text \<open>The writes between the computation of \<^verbatim>\<open>uniqueID\<close> and the marker.\<close>

definition prepareTerminal :: "tsz_env \<Rightarrow> tmuxModeType \<Rightarrow> tsz_event list" where
  "prepareTerminal env tmuxMode =
     (if isRunningOnWindows env then [EnableVirtualTerminal, SetupConsoleOutput]
      else if tmuxMode = tmuxNormalMode then
        (let columns = getTerminalColumns env in
         if columns > 0 \<and> columns < 40
         then [Stdout ([CHR 0x0A, CHR 0x0A, CHR 0x1B] @ ''[2A'' @ [CHR 0x1B] @ ''[0J'')]
         else [Stdout ([CHR 0x0A, CHR 0x1B] @ ''[1A'' @ [CHR 0x1B] @ ''[0J'')])
      else [])"

text \<open>The call deferred on Windows when \<^verbatim>\<open>enableVirtualTerminal\<close> succeeded; it runs
  when \<^verbatim>\<open>TszMain\<close> returns.\<close>

definition deferredReset :: "tsz_env \<Rightarrow> tsz_event list" where
  "deferredReset env =
     (if isRunningOnWindows env \<and> enableVirtualTerminal env = None
      then [ResetVirtualTerminal] else [])"

text \<open>The result is the effects and the exit code.\<close>

definition TszMain :: "tsz_env \<Rightarrow> tszArgs \<Rightarrow> tsz_event list \<times> int" where
  "TszMain env args =
     (case checkPathsReadable env (File args) (Directory args) of
        Inl err \<Rightarrow> ([Stderr err], - 1)
      | Inr files \<Rightarrow>
          (case (if Overwrite args then checkDuplicateNames files else None) of
             Some err \<Rightarrow> ([Stderr err], - 2)
           | None \<Rightarrow>
               (case checkTmux env of
                  Inl err \<Rightarrow> ([Stderr err], - 3)
                | Inr (tmuxMode, realStdout, tmuxPaneWidth) \<Rightarrow>
                    let ctl = (Binary args \<and> tmuxMode = tmuxControlMode);
                        e1 = (if ctl then [Stdout
                                (''Binary download in tmux control mode is slower, '' @
                                 ''auto switch to base64 mode.'' @ [CHR 0x0A])] else []);
                        args = (if ctl then args\<lparr>Binary := False\<rparr> else args);
                        win = (Binary args \<and> isRunningOnWindows env);
                        e2 = (if win then [Stdout
                                (''Binary download on Windows is not supported, '' @
                                 ''auto switch to base64 mode.'' @ [CHR 0x0A])] else []);
                        args = (if win then args\<lparr>Binary := False\<rparr> else args);
                        e3 = prepareTerminal env tmuxMode @
                             [Stdout (marker (kTrzszVersion env) (uniqueID env tmuxMode)),
                              StdoutSync]
                    in
                    (case MakeRaw env of
                       Some err \<Rightarrow>
                         (e1 @ e2 @ e3 @ [Stderr err] @ deferredReset env, - 4)
                     | None \<Rightarrow>
                         (case sendFiles env files args tmuxMode tmuxPaneWidth of
                            (es, res) \<Rightarrow>
                              (e1 @ e2 @ e3 @
                               [TermMakeRaw, NewTransfer realStdout, GoWrapStdinInput,
                                HandleServerSignal] @ es @
                               (case res of None \<Rightarrow> [] | Some err \<Rightarrow> [ServerError err]) @
                               [TermRestore] @ deferredReset env,
                               0))))))"

section \<open>Notions used in the statements\<close>

subsection \<open>Matches of the trigger pattern\<close>

text \<open>A decimal digit, the class \<^verbatim>\<open>\d\<close>.\<close>

definition is_digit :: "char \<Rightarrow> bool" where
  "is_digit c = (c \<in> set ''0123456789'')"

text \<open>A non-empty run of digits, a word of \<^verbatim>\<open>\d+\<close>.\<close>

definition number :: "string \<Rightarrow> bool" where
  "number d = (d \<noteq> [] \<and> list_all is_digit d)"

text \<open>A word of \<^verbatim>\<open>\d+\.\d+\.\d+\<close>, the second group.\<close>

definition version3 :: "string \<Rightarrow> bool" where
  "version3 v = (\<exists>d1 d2 d3. v = d1 @ ''.'' @ d2 @ ''.'' @ d3 \<and> number d1 \<and> number d2 \<and> number d3)"

text \<open>The optional third group \<^verbatim>\<open>(:\d+)?\<close>: absent, or a word of \<^verbatim>\<open>:\d+\<close>.\<close>

definition flag_group :: "string option \<Rightarrow> bool" where
  "flag_group f = (case f of None \<Rightarrow> True | Some x \<Rightarrow> \<exists>d. x = '':'' @ d \<and> number d)"

text \<open>
  \<open>regex_match buf pre m v f post\<close>: the pattern matches the part of \<open>buf\<close> between
  \<open>pre\<close> and \<open>post\<close>, with the groups \<open>m\<close> (the direction), \<open>v\<close> (the version) and
  \<open>f\<close> (the flag).
\<close>

definition regex_match :: "string \<Rightarrow> string \<Rightarrow> char \<Rightarrow> string \<Rightarrow> string option \<Rightarrow> string \<Rightarrow> bool" where
  "regex_match buf pre m v f post =
     (buf = pre @ ''::TRZSZ:TRANSFER:'' @ [m] @ '':'' @ v @ string_of f @ post \<and>
      (m = CHR ''S'' \<or> m = CHR ''R'') \<and> version3 v \<and> flag_group f)"

text \<open>
  The repetitions of the pattern are greedy: the match chosen at an offset cannot be
  extended, neither by a further digit nor, when its flag group is absent, by a flag.
\<close>

definition greedy :: "string option \<Rightarrow> string \<Rightarrow> bool" where
  "greedy f post =
     ((\<nexists>x xs. post = x # xs \<and> is_digit x) \<and>
      (f = None \<longrightarrow> (\<nexists>x xs. post = CHR '':'' # x # xs \<and> is_digit x)))"

text \<open>The match \<^verbatim>\<open>FindSubmatch\<close> reports: greedy, at the leftmost offset where the
  pattern matches at all.\<close>

definition go_match :: "string \<Rightarrow> string \<Rightarrow> char \<Rightarrow> string \<Rightarrow> string option \<Rightarrow> string \<Rightarrow> bool" where
  "go_match buf pre m v f post =
     (regex_match buf pre m v f post \<and> greedy f post \<and>
      (\<forall>pre' m' v' f' post'. regex_match buf pre' m' v' f' post' \<longrightarrow> length pre \<le> length pre'))"

definition contains_match :: "string \<Rightarrow> bool" where
  "contains_match buf = (\<exists>pre m v f post. regex_match buf pre m v f post)"

subsection \<open>Effects of the pumps\<close>

definition writes_terminal :: "event \<Rightarrow> bool" where
  "writes_terminal e = (case e of StdoutWrite b \<Rightarrow> True | _ \<Rightarrow> False)"

definition writes_child :: "event \<Rightarrow> bool" where
  "writes_child e = (case e of PtyStdinWrite b \<Rightarrow> True | _ \<Rightarrow> False)"

text \<open>What the output pump does with a sequence of reads while the transfer \<open>t\<close> is
  active: every chunk is handed to \<^verbatim>\<open>addReceivedData\<close>, up to the end of the output.\<close>

fun queued :: "TrzszTransfer \<Rightarrow> read_result list \<Rightarrow> event list" where
  "queued t [] = []"
| "queued t ((buf, err) # rs) =
     (if err = Some EOF then [StdoutClose]
      else (if err = None \<and> buf \<noteq> [] then [addReceivedData t buf] else []) @ queued t rs)"

text \<open>The chunks for which the output pump suppresses the echo of the command typed
  for dragged files.\<close>

definition drag_echo :: "helpers \<Rightarrow> string \<Rightarrow> bool" where
  "drag_echo h buf =
     (TrimRight (trimVT100 h buf) [CHR 0x0D, CHR 0x0A] \<in> {''trz'', [], [CHR 0x22]})"

subsection \<open>The configuration file\<close>

text \<open>A line names the key when it has an \<open>=\<close> and the text before the first \<open>=\<close>,
  trimmed, is the key; its value is the trimmed text after that \<open>=\<close>.\<close>

definition key_matches :: "(string \<Rightarrow> string) \<Rightarrow> string \<Rightarrow> string \<Rightarrow> bool" where
  "key_matches trim name line =
     (case Index line ''='' of None \<Rightarrow> False | Some idx \<Rightarrow> trim (take idx line) = name)"

definition value_of :: "(string \<Rightarrow> string) \<Rightarrow> string \<Rightarrow> string" where
  "value_of trim line =
     (case Index line ''='' of None \<Rightarrow> [] | Some idx \<Rightarrow> trim (drop (idx + 1) line))"

subsection \<open>Effects of the sender\<close>

text \<open>The effects that send a CFG frame or file data to the peer.\<close>

definition sends_frames :: "tsz_event \<Rightarrow> bool" where
  "sends_frames e =
     (case e of SendConfig a act tm w \<Rightarrow> True | SendFiles fs \<Rightarrow> True | _ \<Rightarrow> False)"

text \<open>The arguments after the two downgrades of \<^verbatim>\<open>TszMain\<close>, the notices written for
  them, and all that is written up to the marker.\<close>

definition effectiveArgs :: "tsz_env \<Rightarrow> tmuxModeType \<Rightarrow> tszArgs \<Rightarrow> tszArgs" where
  "effectiveArgs env tmuxMode args =
     (if Binary args \<and> (tmuxMode = tmuxControlMode \<or> isRunningOnWindows env)
      then args\<lparr>Binary := False\<rparr> else args)"

definition controlModeNotice :: string where
  "controlModeNotice =
     ''Binary download in tmux control mode is slower, auto switch to base64 mode.'' @ [CHR 0x0A]"

definition windowsNotice :: string where
  "windowsNotice =
     ''Binary download on Windows is not supported, auto switch to base64 mode.'' @ [CHR 0x0A]"

definition downgradeNotices :: "tsz_env \<Rightarrow> tmuxModeType \<Rightarrow> tszArgs \<Rightarrow> tsz_event list" where
  "downgradeNotices env tmuxMode args =
     (if Binary args \<and> tmuxMode = tmuxControlMode
      then [Stdout controlModeNotice]
      else if Binary args \<and> isRunningOnWindows env
      then [Stdout windowsNotice]
      else [])"

definition preamble :: "tsz_env \<Rightarrow> tmuxModeType \<Rightarrow> tszArgs \<Rightarrow> tsz_event list" where
  "preamble env tmuxMode args =
     downgradeNotices env tmuxMode args @ prepareTerminal env tmuxMode @
     [Stdout (marker (kTrzszVersion env) (uniqueID env tmuxMode)), StdoutSync]"

subsection \<open>Example environments\<close>

text \<open>A wrapper on Linux: no helper detects dragged files, the VT100 trimmer finds
  nothing to trim; the globals when idle, during the transfer number 7, and while the
  child is interrupted for a drag upload.\<close>

definition example_helpers :: helpers where
  "example_helpers =
     \<lparr>IsWindows = False, detectDragFiles = (\<lambda>buf. (None, False)), trimVT100 = (\<lambda>buf. buf)\<rparr>"

definition idle_globals :: globals where
  "idle_globals =
     \<lparr>gDragFiles = None, gDragHasDir = False, gInterrupting = False, gTransfer = None\<rparr>"

definition active_globals :: globals where
  "active_globals =
     \<lparr>gDragFiles = None, gDragHasDir = False, gInterrupting = False, gTransfer = Some 7\<rparr>"

definition interrupting_globals :: globals where
  "interrupting_globals =
     \<lparr>gDragFiles = Some [''/tmp/a.txt''], gDragHasDir = False, gInterrupting = True,
      gTransfer = None\<rparr>"

text \<open>A home directory with a configuration file in which the download path is
  present but empty on its first line.\<close>

definition example_conf :: "string list" where
  "example_conf =
     [''# trzsz'', ''DefaultUploadPath = /home/u/up '', ''DefaultDownloadPath =   '',
      ''DefaultDownloadPath = /tmp'']"

definition example_os :: os_env where
  "example_os =
     \<lparr>UserHomeDir = Some ''/home/u'',
      Join = (\<lambda>dir name. dir @ ''/'' @ name),
      OpenLines = (\<lambda>path. if path = ''/home/u/.trzsz.conf'' then Some example_conf else None),
      TrimSpace = TrimSpaceASCII,
      SelectFile = Inr ''/home/u/dl''\<rparr>"

text \<open>A sender on Linux outside tmux, at 2023-10-31 15:17:12.109 UTC, whose paths are
  all readable files and whose peer confirms, supports binary mode and acknowledges
  the files.\<close>

definition example_file :: "string \<Rightarrow> trzszFile" where
  "example_file name =
     \<lparr>absPath = ''/home/u/'' @ name, displayName = name, relPath = name,
      fileSize = 5, isDir = False\<rparr>"

definition example_action :: transferAction where
  "example_action = \<lparr>Confirm = True, SupportBinary = True, SupportDirectory = True\<rparr>"

definition example_env :: tsz_env where
  "example_env =
     \<lparr>checkPathsReadable = (\<lambda>paths dir. Inr (map example_file paths)),
      checkTmux = Inr (noTmux, 1, - 1),
      isRunningOnWindows = False,
      enableVirtualTerminal = None,
      getTerminalColumns = 80,
      kTrzszVersion = ''1.1.3'',
      UnixMilli = 1698765432109,
      MakeRaw = None,
      recvAction = Inr example_action,
      sendConfig = None,
      transfer_sendFiles = Inr [''a.txt''],
      recvExit = Inr ''Saved a.txt to /home/u/dl''\<rparr>"

definition example_args :: tszArgs where
  "example_args = \<lparr>Overwrite = False, Binary = False, Directory = False, File = [''a.txt'']\<rparr>"

section \<open>Auxiliary functions of the proofs\<close>

text \<open>A direct scanner for the trigger pattern at one offset; the search of \<open>matches\<close>
  is shown to agree with it.\<close>

definition no_digit_first :: "string \<Rightarrow> bool" where
  "no_digit_first u = (\<nexists>x xs. u = x # xs \<and> is_digit x)"

fun digit_threads :: "string \<Rightarrow> captures \<Rightarrow> thread list" where
  "digit_threads [] c = []"
| "digit_threads (x # xs) c = (if is_digit x then digit_threads xs c @ [(xs, c)] else [])"

definition after_num_dot :: "string \<Rightarrow> string option" where
  "after_num_dot s =
     (case s of [] \<Rightarrow> None
      | x # xs \<Rightarrow> if is_digit x then
          (case dropWhile is_digit s of [] \<Rightarrow> None
           | y # t \<Rightarrow> if y = CHR ''.'' then Some t else None) else None)"

definition digits_end :: "string \<Rightarrow> string option" where
  "digits_end s =
     (case s of [] \<Rightarrow> None | x # xs \<Rightarrow> if is_digit x then Some (dropWhile is_digit s) else None)"

definition scan_tail :: "char \<Rightarrow> string \<Rightarrow> (char \<times> string \<times> string option \<times> string) option" where
  "scan_tail m s3 =
     (case after_num_dot s3 of None \<Rightarrow> None | Some s4 \<Rightarrow>
      case after_num_dot s4 of None \<Rightarrow> None | Some s5 \<Rightarrow>
      case digits_end s5 of None \<Rightarrow> None | Some s6 \<Rightarrow>
        Some (case s6 of
                [] \<Rightarrow> (m, take (length s3 - length s6) s3, None, s6)
              | z # s7 \<Rightarrow>
                  if z = CHR '':'' then
                    (case digits_end s7 of
                       None \<Rightarrow> (m, take (length s3 - length s6) s3, None, s6)
                     | Some s8 \<Rightarrow>
                         (m, take (length s3 - length s6) s3,
                          Some (take (length s6 - length s8) s6), s8))
                  else (m, take (length s3 - length s6) s3, None, s6)))"

definition scan :: "string \<Rightarrow> (char \<times> string \<times> string option \<times> string) option" where
  "scan s =
     (if prefix ''::TRZSZ:TRANSFER:'' s then
        (case drop (length ''::TRZSZ:TRANSFER:'') s of
           [] \<Rightarrow> None
         | m # s2 \<Rightarrow>
             if m \<in> set ''SR'' then
               if prefix '':'' s2 then scan_tail m (drop (length '':'') s2) else None
             else None)
      else None)"

definition first :: "'a list \<Rightarrow> 'a option" where
  "first xs = (case xs of [] \<Rightarrow> None | x # _ \<Rightarrow> Some x)"

definition thread_of :: "char \<times> string \<times> string option \<times> string \<Rightarrow> thread" where
  "thread_of g =
     (case g of (m, v, f, post) \<Rightarrow>
        (post, case f of None \<Rightarrow> [1 \<mapsto> [m], 2 \<mapsto> v]
                       | Some x \<Rightarrow> [1 \<mapsto> [m], 2 \<mapsto> v, 3 \<mapsto> x]))"

section \<open>The trigger detector and the pattern\<close>

lemma matches_digit:
  "matches digit (s, c) = (case s of [] \<Rightarrow> [] | x # xs \<Rightarrow> if is_digit x then [(xs, c)] else [])"
  by (cases s) (simp_all add: digit_def is_digit_def)

lemma plus_loop_digit:
  "length s \<le> k \<Longrightarrow> plus_loop (matches digit) (Suc k) (s, c) = digit_threads s c"
proof (induction s arbitrary: k)
  case Nil
  then show ?case by (simp add: matches_digit)
next
  case (Cons x xs)
  then obtain k' where k: "k = Suc k'" and le: "length xs \<le> k'"
    by (cases k) auto
  from Cons.IH [OF le] show ?case
    by (simp add: matches_digit k)
qed

lemma matches_plus_digit: "matches (Plus digit) (s, c) = digit_threads s c"
  by (simp only: matches.simps fst_conv plus_loop_digit [OF order_refl])

lemma digit_threads_concat:
  assumes K: "\<And>x xs c'. is_digit x \<Longrightarrow> K (x # xs, c') = []"
  shows "concat (map K (digit_threads s c)) =
           (case s of [] \<Rightarrow> [] | x # xs \<Rightarrow> if is_digit x then K (dropWhile is_digit s, c) else [])"
proof (induction s)
  case Nil
  then show ?case by simp
next
  case (Cons x xs)
  show ?case
  proof (cases "is_digit x")
    case False
    then show ?thesis by simp
  next
    case True
    show ?thesis
    proof (cases xs)
      case Nil
      with True show ?thesis by simp
    next
      case (Cons y ys)
      with True Cons.IH K show ?thesis by simp
    qed
  qed
qed

lemma digit_threads_head:
  "is_digit x \<Longrightarrow> \<exists>ts. digit_threads (x # xs) c = (dropWhile is_digit (x # xs), c) # ts"
proof (induction xs arbitrary: x)
  case Nil
  then show ?case by simp
next
  case (Cons y ys)
  show ?case
  proof (cases "is_digit y")
    case True
    from Cons.IH [OF True] obtain ts where "digit_threads (y # ys) c = (dropWhile is_digit (y # ys), c) # ts" ..
    with Cons.prems True show ?thesis by simp
  next
    case False
    with Cons.prems show ?thesis by simp
  qed
qed

lemma not_digit_dot: "\<not> is_digit CHR ''.''"
  by (simp add: is_digit_def)

lemma matches_num_dot:
  "matches (Concat (Plus digit) (Concat (Literal ''.'') r)) (s, c) =
     (case after_num_dot s of None \<Rightarrow> [] | Some t \<Rightarrow> matches r (t, c))"
proof -
  have K: "\<And>x xs c'. is_digit x \<Longrightarrow> matches (Concat (Literal ''.'') r) (x # xs, c') = []"
    using not_digit_dot by auto
  have eq: "matches (Concat (Plus digit) (Concat (Literal ''.'') r)) (s, c) =
      (case s of [] \<Rightarrow> []
       | x # xs \<Rightarrow> if is_digit x then matches (Concat (Literal ''.'') r) (dropWhile is_digit s, c) else [])"
    by (simp only: matches.simps(3) [of "Plus digit"] matches_plus_digit
        digit_threads_concat [of "matches (Concat (Literal ''.'') r)", OF K])
  have lit: "\<And>u. matches (Concat (Literal ''.'') r) (u, c) =
      (case u of [] \<Rightarrow> [] | y # t \<Rightarrow> if y = CHR ''.'' then matches r (t, c) else [])"
    subgoal for u by (cases u) auto
    done
  define u where "u = dropWhile is_digit s"
  have lhs: "matches (Concat (Plus digit) (Concat (Literal ''.'') r)) (s, c) =
      (case s of [] \<Rightarrow> []
       | x # xs \<Rightarrow> if is_digit x then
           (case u of [] \<Rightarrow> [] | y # t \<Rightarrow> if y = CHR ''.'' then matches r (t, c) else [])
         else [])"
    unfolding eq lit u_def ..
  have rhs: "after_num_dot s =
      (case s of [] \<Rightarrow> None
       | x # xs \<Rightarrow> if is_digit x then
           (case u of [] \<Rightarrow> None | y # t \<Rightarrow> if y = CHR ''.'' then Some t else None)
         else None)"
    unfolding after_num_dot_def u_def ..
  show ?thesis
    unfolding lhs rhs by (cases s; cases u) simp_all
qed

lemma first_simps [simp]: "first [] = None" "first (x # xs) = Some x"
  by (simp_all add: first_def)

lemma first_concat:
  assumes "\<And>x. F x \<noteq> []"
  shows "first (concat (map F xs)) = (case first xs of None \<Rightarrow> None | Some x \<Rightarrow> first (F x))"
proof (cases xs)
  case Nil
  then show ?thesis by (simp add: first_def)
next
  case (Cons x ys)
  obtain a as where "F x = a # as" using assms [of x] by (cases "F x") auto
  with Cons show ?thesis by (simp add: first_def)
qed

lemma first_map: "first (map g xs) = map_option g (first xs)"
  by (cases xs) (simp_all add: first_def)

lemma first_digit_threads:
  "first (digit_threads s c) = map_option (\<lambda>u. (u, c)) (digits_end s)"
proof (cases s)
  case Nil
  then show ?thesis by (simp add: first_def digits_end_def)
next
  case (Cons x xs)
  show ?thesis
  proof (cases "is_digit x")
    case True
    from digit_threads_head [OF True, of xs c] obtain ts
      where "digit_threads (x # xs) c = (dropWhile is_digit (x # xs), c) # ts" ..
    with True Cons show ?thesis by (simp add: first_def digits_end_def)
  next
    case False
    with Cons show ?thesis by (simp add: first_def digits_end_def)
  qed
qed

lemma matches_version:
  "matches version_re (s3, c) =
     (case after_num_dot s3 of None \<Rightarrow> [] | Some s4 \<Rightarrow>
      case after_num_dot s4 of None \<Rightarrow> [] | Some s5 \<Rightarrow> digit_threads s5 c)"
  unfolding version_re_def matches_num_dot matches_plus_digit ..

lemma matches_flag:
  "matches flag_re (s6, c) =
     (case s6 of [] \<Rightarrow> [] | z # s7 \<Rightarrow> if z = CHR '':'' then digit_threads s7 c else [])"
  by (cases s6) (auto simp: flag_re_def matches_plus_digit simp del: matches.simps(4))

lemma matches_quest_flag_first:
  "first (matches (Quest (Capture 3 flag_re)) (s6, c)) =
     Some (case s6 of
             [] \<Rightarrow> (s6, c)
           | z # s7 \<Rightarrow>
               if z = CHR '':'' then
                 (case digits_end s7 of
                    None \<Rightarrow> (s6, c)
                  | Some s8 \<Rightarrow> (s8, c(3 \<mapsto> take (length s6 - length s8) s6)))
               else (s6, c))"
proof -
  have "first (matches (Quest (Capture 3 flag_re)) (s6, c)) =
      (case first (matches flag_re (s6, c)) of
         None \<Rightarrow> Some (s6, c)
       | Some (s8, c') \<Rightarrow> Some (s8, c'(3 \<mapsto> take (length s6 - length s8) s6)))"
    by (cases "matches flag_re (s6, c)") (auto simp: first_def)
  also have "first (matches flag_re (s6, c)) =
      (case s6 of [] \<Rightarrow> None
       | z # s7 \<Rightarrow> if z = CHR '':'' then map_option (\<lambda>u. (u, c)) (digits_end s7) else None)"
    unfolding matches_flag
    by (cases s6) (simp_all add: first_digit_threads)
  finally show ?thesis
    by (cases s6) (auto split: option.splits)
qed

lemma quest_nonempty: "matches (Quest r) st \<noteq> []"
  by simp

lemma first_version:
  "first (matches version_re (s3, c)) =
     (case after_num_dot s3 of None \<Rightarrow> None | Some s4 \<Rightarrow>
      case after_num_dot s4 of None \<Rightarrow> None | Some s5 \<Rightarrow>
        map_option (\<lambda>u. (u, c)) (digits_end s5))"
  unfolding matches_version
  by (simp add: first_digit_threads split: option.splits)

lemma first_tail:
  "first (matches (Concat (Capture 2 version_re) (Quest (Capture 3 flag_re))) (s3, c1)) =
     (case after_num_dot s3 of None \<Rightarrow> None | Some s4 \<Rightarrow>
      case after_num_dot s4 of None \<Rightarrow> None | Some s5 \<Rightarrow>
      case digits_end s5 of None \<Rightarrow> None | Some s6 \<Rightarrow>
        Some (case s6 of
                [] \<Rightarrow> (s6, c1(2 \<mapsto> take (length s3 - length s6) s3))
              | z # s7 \<Rightarrow>
                  if z = CHR '':'' then
                    (case digits_end s7 of
                       None \<Rightarrow> (s6, c1(2 \<mapsto> take (length s3 - length s6) s3))
                     | Some s8 \<Rightarrow> (s8, c1(2 \<mapsto> take (length s3 - length s6) s3,
                                           3 \<mapsto> take (length s6 - length s8) s6)))
                  else (s6, c1(2 \<mapsto> take (length s3 - length s6) s3))))"
proof -
  have "first (matches (Concat (Capture 2 version_re) (Quest (Capture 3 flag_re))) (s3, c1)) =
      (case first (matches (Capture 2 version_re) (s3, c1)) of
         None \<Rightarrow> None
       | Some x \<Rightarrow> first (matches (Quest (Capture 3 flag_re)) x))"
    by (simp only: matches.simps(3) first_concat [of "matches (Quest (Capture 3 flag_re))", OF quest_nonempty])
  also have "first (matches (Capture 2 version_re) (s3, c1)) =
      map_option (\<lambda>(s', c'). (s', c'(2 \<mapsto> take (length s3 - length s') s3)))
        (first (matches version_re (s3, c1)))"
    by (simp only: matches.simps(6) first_map)
  finally show ?thesis
    unfolding first_version
    by (simp add: matches_quest_flag_first split: option.splits del: matches.simps)
qed

lemma matches_lit_cat:
  "matches (Concat (Literal l) r) (s, c) =
     (if prefix l s then matches r (drop (length l) s, c) else [])"
  by simp

lemma matches_cap_class_cat:
  "matches (Concat (Capture n (CharClass cs)) r) (s, c) =
     (case s of [] \<Rightarrow> [] | m # s2 \<Rightarrow> if m \<in> set cs then matches r (s2, c(n \<mapsto> [m])) else [])"
  by (cases s) simp_all

lemma first_tail_scan:
  "first (matches (Concat (Capture 2 version_re) (Quest (Capture 3 flag_re))) (s3, [1 \<mapsto> [m]])) =
     map_option thread_of (scan_tail m s3)"
  unfolding first_tail scan_tail_def
  by (simp add: thread_of_def split: option.splits list.splits)

lemma first_matches_trzsz:
  "first (matches trzszRegexp (s, Map.empty)) = map_option thread_of (scan s)"
  unfolding trzszRegexp_def matches_lit_cat matches_cap_class_cat scan_def
  by (simp add: first_tail_scan split: list.splits del: matches.simps set_simps One_nat_def)

lemma number_takeWhile: "is_digit x \<Longrightarrow> number (takeWhile is_digit (x # xs))"
  by (simp add: number_def list_all_iff) (meson set_takeWhileD)

lemma dropWhile_number: "number d \<Longrightarrow> dropWhile is_digit (d @ u) = dropWhile is_digit u"
  by (simp add: number_def list_all_iff dropWhile_append2)

lemma number_hd: "number d \<Longrightarrow> \<exists>x xs. d = x # xs \<and> is_digit x"
  by (cases d) (simp_all add: number_def)

lemma after_num_dot_app: "number d \<Longrightarrow> after_num_dot (d @ CHR ''.'' # t) = Some t"
  using number_hd [of d] dropWhile_number [of d "CHR ''.'' # t"] not_digit_dot
  by (auto simp: after_num_dot_def)

lemma after_num_dot_SomeD:
  assumes "after_num_dot s = Some t"
  shows "\<exists>d. number d \<and> s = d @ CHR ''.'' # t"
proof -
  from assms obtain x xs where s: "s = x # xs" and x: "is_digit x"
    and d: "dropWhile is_digit s = CHR ''.'' # t"
    by (auto simp: after_num_dot_def split: list.splits if_splits)
  have "s = takeWhile is_digit s @ dropWhile is_digit s" by simp
  with d have "s = takeWhile is_digit s @ CHR ''.'' # t" by simp
  moreover have "number (takeWhile is_digit s)" using number_takeWhile [OF x] s by simp
  ultimately show ?thesis by blast
qed

lemma dropWhile_no_digit_first: "no_digit_first u \<Longrightarrow> dropWhile is_digit u = u"
  by (cases u) (auto simp: no_digit_first_def)

lemma digits_end_app: "number d \<Longrightarrow> no_digit_first u \<Longrightarrow> digits_end (d @ u) = Some u"
  using number_hd [of d] dropWhile_number [of d u] dropWhile_no_digit_first [of u]
  by (auto simp: digits_end_def)

lemma no_digit_first_dropWhile: "no_digit_first (dropWhile is_digit s)"
  unfolding no_digit_first_def
  by (metis dropWhile_eq_Cons_conv)

lemma digits_end_SomeD:
  assumes "digits_end s = Some u"
  shows "\<exists>d. number d \<and> s = d @ u \<and> no_digit_first u"
proof -
  from assms obtain x xs where s: "s = x # xs" and x: "is_digit x"
    and d: "dropWhile is_digit s = u"
    by (auto simp: digits_end_def split: list.splits if_splits)
  have "s = takeWhile is_digit s @ dropWhile is_digit s" by simp
  with d have "s = takeWhile is_digit s @ u" by simp
  moreover have "number (takeWhile is_digit s)" using number_takeWhile [OF x] s by simp
  moreover have "no_digit_first u" using no_digit_first_dropWhile [of s] d by simp
  ultimately show ?thesis by blast
qed

lemma digits_end_None: "digits_end s = None \<longleftrightarrow> no_digit_first s"
  by (cases s) (auto simp: digits_end_def no_digit_first_def)

lemma no_digit_first_simps [simp]:
  "no_digit_first []" "no_digit_first (x # xs) = (\<not> is_digit x)"
  by (simp_all add: no_digit_first_def)

lemma not_digit_colon: "\<not> is_digit CHR '':''"
  by (simp add: is_digit_def)

lemma greedy_alt:
  "greedy f post \<longleftrightarrow> no_digit_first post \<and>
     (f = None \<longrightarrow> (case post of [] \<Rightarrow> True | z # s7 \<Rightarrow> z = CHR '':'' \<longrightarrow> no_digit_first s7))"
  by (cases post; cases "tl post") (auto simp: greedy_def no_digit_first_def)

lemma scan_tail_SomeD:
  assumes "scan_tail m s3 = Some (m', v, f, post)"
  shows "m' = m \<and> s3 = v @ string_of f @ post \<and> version3 v \<and> flag_group f \<and> greedy f post"
proof -
  from assms obtain s4 s5 s6
    where a1: "after_num_dot s3 = Some s4" and a2: "after_num_dot s4 = Some s5"
      and a3: "digits_end s5 = Some s6"
      and r: "(m', v, f, post) =
        (case s6 of
           [] \<Rightarrow> (m, take (length s3 - length s6) s3, None, s6)
         | z # s7 \<Rightarrow>
             if z = CHR '':'' then
               (case digits_end s7 of
                  None \<Rightarrow> (m, take (length s3 - length s6) s3, None, s6)
                | Some s8 \<Rightarrow>
                    (m, take (length s3 - length s6) s3,
                     Some (take (length s6 - length s8) s6), s8))
             else (m, take (length s3 - length s6) s3, None, s6))"
    by (auto simp: scan_tail_def split: option.splits)
  from after_num_dot_SomeD [OF a1] obtain d1 where d1: "number d1" "s3 = d1 @ CHR ''.'' # s4" by blast
  from after_num_dot_SomeD [OF a2] obtain d2 where d2: "number d2" "s4 = d2 @ CHR ''.'' # s5" by blast
  from digits_end_SomeD [OF a3] obtain d3 where d3: "number d3" "s5 = d3 @ s6" "no_digit_first s6" by blast
  define v0 where "v0 = d1 @ ''.'' @ d2 @ ''.'' @ d3"
  have s3: "s3 = v0 @ s6" using d1 d2 d3 by (simp add: v0_def)
  have tk: "take (length s3 - length s6) s3 = v0" by (simp add: s3)
  have v0: "version3 v0" unfolding version3_def v0_def using d1 d2 d3 by blast
  show ?thesis
  proof (cases s6)
    case Nil
    with r tk s3 v0 show ?thesis
      by (simp add: string_of_def flag_group_def greedy_alt)
  next
    case (Cons z s7)
    show ?thesis
    proof (cases "z = CHR '':''")
      case False
      with r tk s3 v0 Cons d3(3) show ?thesis
        by (simp add: string_of_def flag_group_def greedy_alt)
    next
      case True
      show ?thesis
      proof (cases "digits_end s7")
        case None
        with r tk s3 v0 Cons True d3(3) show ?thesis
          by (simp add: string_of_def flag_group_def greedy_alt digits_end_None)
      next
        case (Some s8)
        from digits_end_SomeD [OF Some] obtain d4
          where d4: "number d4" "s7 = d4 @ s8" "no_digit_first s8" by blast
        have "take (length s6 - length s8) s6 = '':'' @ d4"
          using Cons True d4 by simp
        with r tk s3 v0 Cons True Some d4 show ?thesis
          by (auto simp: string_of_def flag_group_def greedy_alt)
      qed
    qed
  qed
qed

lemma scan_tail_SomeI:
  assumes v: "version3 v" and f: "flag_group f" and g: "greedy f post"
  shows "scan_tail m (v @ string_of f @ post) = Some (m, v, f, post)"
proof -
  from v obtain d1 d2 d3 where v': "v = d1 @ ''.'' @ d2 @ ''.'' @ d3"
    and d: "number d1" "number d2" "number d3"
    unfolding version3_def by blast
  define s6 where "s6 = string_of f @ post"
  define s3 where "s3 = v @ s6"
  have nd: "no_digit_first s6"
    using f g not_digit_colon
    by (cases f) (auto simp: s6_def string_of_def flag_group_def greedy_alt)
  have a1: "after_num_dot s3 = Some (d2 @ CHR ''.'' # d3 @ s6)"
    using after_num_dot_app [OF d(1), of "d2 @ CHR ''.'' # d3 @ s6"] by (simp add: s3_def v')
  have a2: "after_num_dot (d2 @ CHR ''.'' # d3 @ s6) = Some (d3 @ s6)"
    by (rule after_num_dot_app [OF d(2)])
  have a3: "digits_end (d3 @ s6) = Some s6"
    by (rule digits_end_app [OF d(3) nd])
  have tk: "take (length s3 - length s6) s3 = v" by (simp add: s3_def)
  have tail: "(case s6 of
           [] \<Rightarrow> (m, w, None, s6)
         | z # s7 \<Rightarrow>
             if z = CHR '':'' then
               (case digits_end s7 of
                  None \<Rightarrow> (m, w, None, s6)
                | Some s8 \<Rightarrow> (m, w, Some (take (length s6 - length s8) s6), s8))
             else (m, w, None, s6)) = (m, v, f, post)" if "w = v" for w
  proof (cases f)
    case None
    then have s6: "s6 = post" by (simp add: s6_def string_of_def)
    from g None have "case post of [] \<Rightarrow> True | z # s7 \<Rightarrow> z = CHR '':'' \<longrightarrow> no_digit_first s7"
      by (simp add: greedy_alt)
    then show ?thesis
      using None that by (cases post) (auto simp: s6 digits_end_None [symmetric])
  next
    case (Some x)
    with f obtain d4 where d4: "x = '':'' @ d4" "number d4" by (auto simp: flag_group_def)
    from g have np: "no_digit_first post" by (simp add: greedy_alt)
    have s6: "s6 = CHR '':'' # d4 @ post" using Some d4 by (simp add: s6_def string_of_def)
    have "digits_end (d4 @ post) = Some post" by (rule digits_end_app [OF d4(2) np])
    then show ?thesis using Some d4 that by (simp add: s6)
  qed
  show ?thesis
    unfolding scan_tail_def s6_def [symmetric] s3_def [symmetric]
    by (simp add: a1 a2 a3 tail [OF tk])
qed

lemma scan_Some_iff:
  "scan s = Some (m, v, f, post) \<longleftrightarrow> regex_match s [] m v f post \<and> greedy f post"
proof
  assume a: "scan s = Some (m, v, f, post)"
  then have p: "prefix ''::TRZSZ:TRANSFER:'' s"
    by (simp add: scan_def split: if_splits)
  then obtain s1 where s: "s = ''::TRZSZ:TRANSFER:'' @ s1"
    by (auto simp: prefix_def)
  from a s obtain m0 s3 where s1: "s1 = m0 # CHR '':'' # s3" and m0: "m0 = CHR ''S'' \<or> m0 = CHR ''R''"
    and t: "scan_tail m0 s3 = Some (m, v, f, post)"
    by (auto simp: scan_def prefix_def split: list.splits if_splits)
  from scan_tail_SomeD [OF t] s s1 m0 show "regex_match s [] m v f post \<and> greedy f post"
    by (simp add: regex_match_def)
next
  assume "regex_match s [] m v f post \<and> greedy f post"
  then have s: "s = ''::TRZSZ:TRANSFER:'' @ [m] @ '':'' @ v @ string_of f @ post"
    and m: "m = CHR ''S'' \<or> m = CHR ''R''" and v: "version3 v" and f: "flag_group f"
    and g: "greedy f post"
    by (simp_all add: regex_match_def)
  from scan_tail_SomeI [OF v f g, of m] m show "scan s = Some (m, v, f, post)"
    unfolding scan_def s by auto
qed

lemma scan_None_iff: "scan s = None \<longleftrightarrow> (\<nexists>m v f post. regex_match s [] m v f post \<and> greedy f post)"
proof (cases "scan s")
  case None
  then show ?thesis using scan_Some_iff [of s] by auto
next
  case (Some g)
  obtain m v f post where "g = (m, v, f, post)" by (cases g) auto
  with Some show ?thesis using scan_Some_iff [of s m v f post] by auto
qed

lemma regex_match_scan:
  assumes "regex_match s [] m v f post"
  shows "scan s \<noteq> None"
proof -
  from assms have p: "prefix ''::TRZSZ:TRANSFER:'' s" and s: "s = ''::TRZSZ:TRANSFER:'' @ [m] @ '':'' @ v @ string_of f @ post"
    and m: "m = CHR ''S'' \<or> m = CHR ''R''" and v: "version3 v"
    by (simp_all add: regex_match_def)
  from v obtain d1 d2 d3 where v': "v = d1 @ ''.'' @ d2 @ ''.'' @ d3"
    and d: "number d1" "number d2" "number d3"
    unfolding version3_def by blast
  define r where "r = string_of f @ post"
  have a1: "after_num_dot (v @ r) = Some (d2 @ CHR ''.'' # d3 @ r)"
    using after_num_dot_app [OF d(1), of "d2 @ CHR ''.'' # d3 @ r"] by (simp add: v')
  have a2: "after_num_dot (d2 @ CHR ''.'' # d3 @ r) = Some (d3 @ r)"
    by (rule after_num_dot_app [OF d(2)])
  from number_hd [OF d(3)] have a3: "digits_end (d3 @ r) \<noteq> None"
    by (auto simp: digits_end_def)
  then obtain s6 where s6: "digits_end (d3 @ r) = Some s6" by auto
  have "scan_tail m (v @ r) \<noteq> None"
    unfolding scan_tail_def by (simp add: a1 a2 s6)
  with m show ?thesis
    unfolding scan_def s r_def by auto
qed

lemma regex_match_shift:
  "regex_match (pre @ s) pre m v f post \<longleftrightarrow> regex_match s [] m v f post"
  by (simp add: regex_match_def)

lemma regex_match_offset:
  "regex_match buf pre m v f post \<Longrightarrow> \<exists>s. buf = pre @ s \<and> regex_match s [] m v f post"
  by (auto simp: regex_match_def)

lemma find_leftmost_first:
  "find_leftmost r s =
     (case first (matches r (s, Map.empty)) of
        Some (s', c) \<Rightarrow> Some (take (length s - length s') s, c)
      | None \<Rightarrow> (case s of [] \<Rightarrow> None | x # xs \<Rightarrow> find_leftmost r xs))"
  by (cases s; cases "matches r (s, Map.empty)") (auto simp del: matches.simps)

lemma find_leftmost_None_iff:
  "find_leftmost r buf = None \<longleftrightarrow>
     (\<forall>pre s. buf = pre @ s \<longrightarrow> first (matches r (s, Map.empty)) = None)"
proof (induction buf)
  case Nil
  then show ?case
    by (subst find_leftmost_first) (auto split: option.splits)
next
  case (Cons x xs)
  have "find_leftmost r (x # xs) = None \<longleftrightarrow>
      first (matches r (x # xs, Map.empty)) = None \<and> find_leftmost r xs = None"
    by (subst find_leftmost_first) (auto split: option.splits)
  also have "\<dots> \<longleftrightarrow> (\<forall>pre s. x # xs = pre @ s \<longrightarrow> first (matches r (s, Map.empty)) = None)"
    unfolding Cons.IH
    by (auto simp: Cons_eq_append_conv)
  finally show ?case .
qed

lemma find_leftmost_Some:
  assumes "first (matches r (s, Map.empty)) = Some (s', c)"
    and "\<And>pre' t. pre @ s = pre' @ t \<Longrightarrow> length pre' < length pre \<Longrightarrow>
           first (matches r (t, Map.empty)) = None"
  shows "find_leftmost r (pre @ s) = Some (take (length s - length s') s, c)"
  using assms(2)
proof (induction pre)
  case Nil
  show ?case using assms(1) by (subst find_leftmost_first) simp
next
  case (Cons x pre)
  have "first (matches r ((x # pre) @ s, Map.empty)) = None"
    by (rule Cons.prems [of "[]"]) simp_all
  moreover have "find_leftmost r (pre @ s) = Some (take (length s - length s') s, c)"
  proof (rule Cons.IH)
    fix pre' t assume "pre @ s = pre' @ t" "length pre' < length pre"
    then show "first (matches r (t, Map.empty)) = None"
      using Cons.prems [of "x # pre'" t] by simp
  qed
  ultimately show ?case by (subst find_leftmost_first) simp
qed

lemma Index_prefix: "prefix sep s \<Longrightarrow> Index (pre @ s) sep \<noteq> None"
proof (induction pre)
  case Nil
  then show ?case by (cases s) auto
next
  case (Cons x pre)
  then show ?case by simp
qed

lemma NumSubexp_trzsz: "NumSubexp trzszRegexp = 3"
  by (simp add: trzszRegexp_def version_re_def flag_re_def digit_def)

lemma upt_1_4: "[1..<Suc 3] = [1, 2, 3]"
  by (simp add: upt_rec)

lemma detectTrzsz_no_match:
  assumes "\<nexists>pre m v f post. regex_match buf pre m v f post"
  shows "detectTrzsz buf = Inr (None, False)"
proof -
  have "first (matches trzszRegexp (s, Map.empty)) = None" if "buf = pre @ s" for pre s
  proof -
    have "scan s = None"
    proof (rule ccontr)
      assume "scan s \<noteq> None"
      then obtain m v f post where "scan s = Some (m, v, f, post)" by auto
      then have "regex_match s [] m v f post" by (simp add: scan_Some_iff)
      then have "regex_match buf pre m v f post" using that by (simp add: regex_match_shift)
      with assms show False by blast
    qed
    then show ?thesis by (simp add: first_matches_trzsz)
  qed
  then have "find_leftmost trzszRegexp buf = None"
    by (simp add: find_leftmost_None_iff)
  then show ?thesis
    by (simp add: detectTrzsz_def FindSubmatch_def)
qed

lemma detectTrzsz_go_match:
  assumes "go_match buf pre m v f post"
  shows "detectTrzsz buf = Inr (Some m, f = Some '':1'')"
proof -
  from assms have rm: "regex_match buf pre m v f post" and g: "greedy f post"
    and left: "\<And>pre' m' v' f' post'. regex_match buf pre' m' v' f' post' \<Longrightarrow> length pre \<le> length pre'"
    unfolding go_match_def by blast+
  from regex_match_offset [OF rm] obtain s where buf: "buf = pre @ s"
    and rs: "regex_match s [] m v f post" by blast
  have sc: "scan s = Some (m, v, f, post)" using rs g by (simp add: scan_Some_iff)
  have fst: "first (matches trzszRegexp (s, Map.empty)) = Some (thread_of (m, v, f, post))"
    by (simp add: first_matches_trzsz sc)
  have none: "first (matches trzszRegexp (t, Map.empty)) = None"
    if "pre @ s = pre' @ t" "length pre' < length pre" for pre' t
  proof -
    have "scan t = None"
    proof (rule ccontr)
      assume "scan t \<noteq> None"
      then obtain m' v' f' post' where "scan t = Some (m', v', f', post')" by auto
      then have "regex_match t [] m' v' f' post'" by (simp add: scan_Some_iff)
      then have "regex_match buf pre' m' v' f' post'"
        using that(1) buf by (simp add: regex_match_shift)
      from left [OF this] that(2) show False by simp
    qed
    then show ?thesis by (simp add: first_matches_trzsz)
  qed
  obtain c where c: "thread_of (m, v, f, post) = (post, c)" and c1: "c 1 = Some [m]" and c3: "c 3 = f"
    by (cases f) (auto simp: thread_of_def)
  from find_leftmost_Some [of trzszRegexp s post c pre, OF fst [unfolded c] none]
  have fl: "find_leftmost trzszRegexp buf = Some (take (length s - length post) s, c)"
    by (simp add: buf)
  have p: "prefix ''::TRZSZ:TRANSFER:'' s" using rs by (simp add: regex_match_def)
  have ct: "Contains buf ''::TRZSZ:TRANSFER:''"
    unfolding Contains_def buf by (rule Index_prefix [OF p])
  have so: "string_of f = '':1'' \<longleftrightarrow> f = Some '':1''"
    by (cases f) (auto simp: string_of_def)
  have fs: "FindSubmatch trzszRegexp buf =
      [Some (take (length s - length post) s), Some [m], c 2, f]"
    unfolding FindSubmatch_def fl NumSubexp_trzsz upt_1_4
    by (simp add: c1 [unfolded One_nat_def] c3)
  show ?thesis
    unfolding detectTrzsz_def fs
    by (simp add: ct so) (simp add: string_of_def)
qed

lemma go_match_exists:
  assumes "regex_match buf pre0 m0 v0 f0 post0"
  shows "\<exists>pre m v f post. go_match buf pre m v f post"
proof -
  define P where "P n \<longleftrightarrow> (\<exists>pre m v f post. regex_match buf pre m v f post \<and> length pre = n)" for n
  have "P (length pre0)" unfolding P_def using assms by blast
  then obtain n where n: "P n" and least: "\<And>k. P k \<Longrightarrow> n \<le> k"
    by (metis LeastI Least_le)
  from n obtain pre m v f post where rm: "regex_match buf pre m v f post" and len: "length pre = n"
    unfolding P_def by blast
  from regex_match_offset [OF rm] obtain s where buf: "buf = pre @ s"
    and rs: "regex_match s [] m v f post" by blast
  from regex_match_scan [OF rs] obtain m' v' f' post' where "scan s = Some (m', v', f', post')"
    by auto
  then have g: "regex_match s [] m' v' f' post'" "greedy f' post'"
    by (simp_all add: scan_Some_iff)
  have "go_match buf pre m' v' f' post'"
    unfolding go_match_def
  proof (intro conjI allI impI)
    show "regex_match buf pre m' v' f' post'" using g(1) buf by (simp add: regex_match_shift)
    show "greedy f' post'" by (rule g(2))
    fix pre2 m2 v2 f2 post2 assume "regex_match buf pre2 m2 v2 f2 post2"
    then have "P (length pre2)" unfolding P_def by blast
    from least [OF this] len show "length pre \<le> length pre2" by simp
  qed
  then show ?thesis by blast
qed

lemma detectTrzsz_Nil: "detectTrzsz [] = Inr (None, False)"
  by (simp add: detectTrzsz_def Contains_def)

lemma detectTrzsz_cases:
  obtains (none) "detectTrzsz buf = Inr (None, False)"
  | (trigger) m w where "detectTrzsz buf = Inr (Some m, w)"
proof (cases "contains_match buf")
  case True
  then obtain pre m v f post where "go_match buf pre m v f post"
    unfolding contains_match_def using go_match_exists by blast
  from detectTrzsz_go_match [OF this] show ?thesis by (rule trigger)
next
  case False
  then have "detectTrzsz buf = Inr (None, False)"
    unfolding contains_match_def by (rule detectTrzsz_no_match)
  then show ?thesis by (rule none)
qed

lemma Index_SomeD:
  "Index s sep = Some i \<Longrightarrow>
     i \<le> length s \<and> prefix sep (drop i s) \<and> (\<forall>j<i. \<not> prefix sep (drop j s))"
proof (induction s arbitrary: i)
  case Nil
  then show ?case by (simp split: if_splits)
next
  case (Cons c s)
  show ?case
  proof (cases "prefix sep (c # s)")
    case True
    with Cons.prems show ?thesis by simp
  next
    case False
    with Cons.prems obtain i' where i: "i = Suc i'" and i': "Index s sep = Some i'"
      by auto
    from Cons.IH [OF i'] False show ?thesis
      by (auto simp: i less_Suc_eq_0_disj)
  qed
qed

lemma prefix_drop_split:
  "i \<le> length s \<Longrightarrow> prefix sep (drop i s) \<Longrightarrow> s = take i s @ sep @ drop (i + length sep) s"
  by (metis append_take_drop_id drop_drop prefix_def append_eq_conv_conj add.commute)

lemma Index_first:
  "i \<le> length s \<Longrightarrow> prefix sep (drop i s) \<Longrightarrow> (\<forall>j<i. \<not> prefix sep (drop j s)) \<Longrightarrow>
     Index s sep = Some i"
proof (induction s arbitrary: i)
  case Nil
  then show ?case by simp
next
  case (Cons c s)
  show ?case
  proof (cases i)
    case 0
    with Cons.prems show ?thesis by simp
  next
    case (Suc i')
    with Cons.prems have np: "\<not> prefix sep (c # s)" by (metis drop0 zero_less_Suc)
    have "Index s sep = Some i'"
    proof (rule Cons.IH)
      show "i' \<le> length s" using Cons.prems Suc by simp
      show "prefix sep (drop i' s)" using Cons.prems Suc by simp
      show "\<forall>j<i'. \<not> prefix sep (drop j s)"
        using Cons.prems(3) Suc by (metis Suc_less_eq drop_Suc_Cons)
    qed
    with np Suc show ?thesis by simp
  qed
qed

lemma Replace_once:
  "Replace s old new 1 =
     (case Index s old of None \<Rightarrow> s | Some i \<Rightarrow> take i s @ new @ drop (i + length old) s)"
  by (simp split: option.splits)

subsection \<open>Trigger detection\<close>

text \<open>
  Claim C2 (trigger detection).  For every buffer, \<^verbatim>\<open>detectTrzsz\<close> reports a trigger
  exactly when the buffer contains a match of the pattern
  \<^verbatim>\<open>::TRZSZ:TRANSFER:([SR]):(\d+\.\d+\.\d+)(:\d+)?\<close>, and reports \<^verbatim>\<open>(nil, false)\<close>
  exactly when it contains none (so the lookup of the first group never panics).  The
  direction byte it reports is the first group (\<open>S\<close> or \<open>R\<close>) of the match the regexp
  engine selects, the leftmost one with greedy repetitions, and the platform hint is
  true exactly when the third group of that match is the two characters \<open>:1\<close>.
\<close>

theorem detectTrzsz_regex:
  "((\<exists>m w. detectTrzsz buf = Inr (Some m, w)) \<longleftrightarrow> contains_match buf) \<and>
   (detectTrzsz buf = Inr (None, False) \<longleftrightarrow> \<not> contains_match buf) \<and>
   (\<forall>m w. detectTrzsz buf = Inr (Some m, w) \<longleftrightarrow>
      (\<exists>pre v f post. go_match buf pre m v f post \<and> w = (f = Some '':1'')))"
proof (cases "contains_match buf")
  case False
  then have d: "detectTrzsz buf = Inr (None, False)"
    unfolding contains_match_def by (rule detectTrzsz_no_match)
  have "\<not> go_match buf pre m v f post" for pre m v f post
    using False unfolding contains_match_def go_match_def by blast
  with False d show ?thesis by simp
next
  case True
  then obtain pre m v f post where g: "go_match buf pre m v f post"
    unfolding contains_match_def using go_match_exists by blast
  have d: "detectTrzsz buf = Inr (Some m, f = Some '':1'')"
    by (rule detectTrzsz_go_match [OF g])
  have iff: "detectTrzsz buf = Inr (Some m', w) \<longleftrightarrow>
      (\<exists>pre v f post. go_match buf pre m' v f post \<and> w = (f = Some '':1''))" for m' w
  proof
    assume "detectTrzsz buf = Inr (Some m', w)"
    with d have "m' = m" "w = (f = Some '':1'')" by simp_all
    with g show "\<exists>pre v f post. go_match buf pre m' v f post \<and> w = (f = Some '':1'')"
      by blast
  next
    assume "\<exists>pre v f post. go_match buf pre m' v f post \<and> w = (f = Some '':1'')"
    then obtain pre' v' f' post' where g': "go_match buf pre' m' v' f' post'"
      and w: "w = (f' = Some '':1'')" by blast
    from detectTrzsz_go_match [OF g'] w show "detectTrzsz buf = Inr (Some m', w)" by simp
  qed
  show ?thesis
  proof (intro conjI allI)
    show "(\<exists>m w. detectTrzsz buf = Inr (Some m, w)) \<longleftrightarrow> contains_match buf"
      using True d by blast
    show "detectTrzsz buf = Inr (None, False) \<longleftrightarrow> \<not> contains_match buf"
      using True d by simp
    show "detectTrzsz buf = Inr (Some m', w) \<longleftrightarrow>
      (\<exists>pre v f post. go_match buf pre m' v f post \<and> w = (f = Some '':1''))" for m' w
      by (rule iff)
  qed
qed

theorem detectTrzsz_regex_witness:
  "detectTrzsz ''ls::TRZSZ:TRANSFER:R:1.1.3:1'' = Inr (Some CHR ''R'', True) \<and>
   contains_match ''ls::TRZSZ:TRANSFER:R:1.1.3:1'' \<and>
   (\<exists>pre v f post. go_match ''ls::TRZSZ:TRANSFER:R:1.1.3:1'' pre CHR ''R'' v f post \<and>
      f = Some '':1'') \<and>
   detectTrzsz ''::TRZSZ:TRANSFER:S:1.1'' = Inr (None, False) \<and>
   \<not> contains_match ''::TRZSZ:TRANSFER:S:1.1''"
proof -
  have e1: "detectTrzsz ''ls::TRZSZ:TRANSFER:R:1.1.3:1'' = Inr (Some CHR ''R'', True)"
    by (simp add: detectTrzsz_def Contains_def FindSubmatch_def trzszRegexp_def version_re_def
        flag_re_def digit_def string_of_def)
  have e2: "detectTrzsz ''::TRZSZ:TRANSFER:S:1.1'' = Inr (None, False)"
    by (simp add: detectTrzsz_def Contains_def FindSubmatch_def trzszRegexp_def version_re_def
        flag_re_def digit_def string_of_def)
  note t1 = detectTrzsz_regex [of "''ls::TRZSZ:TRANSFER:R:1.1.3:1''"]
  from t1 e1 have a: "contains_match ''ls::TRZSZ:TRANSFER:R:1.1.3:1''"
    by blast
  from t1 [THEN conjunct2, THEN conjunct2, rule_format, of "CHR ''R''" True] e1
  have b: "\<exists>pre v f post. go_match ''ls::TRZSZ:TRANSFER:R:1.1.3:1'' pre CHR ''R'' v f post \<and>
      f = Some '':1''"
    by simp
  from detectTrzsz_regex [of "''::TRZSZ:TRANSFER:S:1.1''"] e2
  have c: "\<not> contains_match ''::TRZSZ:TRANSFER:S:1.1''" by blast
  from e1 e2 a b c show ?thesis by blast
qed

section \<open>The pumps\<close>

subsection \<open>Session blackout\<close>

lemma wrapOutput_body_active:
  "gTransfer g = Some t \<Longrightarrow>
     wrapOutput_body h d (buf, err) g = (queued t [(buf, err)], g, if err = Some EOF then Break else Continue)"
  by (simp add: wrapOutput_body_def)

lemma pump_output_active:
  "gTransfer g = Some t \<Longrightarrow> pump (wrapOutput_body h d) rs g = (queued t rs, g)"
proof (induction rs)
  case Nil
  then show ?case by simp
next
  case (Cons r rs)
  obtain buf err where r: "r = (buf, err)" by (cases r)
  from Cons show ?case
    by (simp add: r wrapOutput_body_active)
qed

lemma queued_silent: "list_all (\<lambda>e. \<not> writes_terminal e) (queued t rs)"
  by (induction t rs rule: queued.induct) (simp_all add: writes_terminal_def)

text \<open>
  Claim C1 (session blackout), as amended.  While a transfer is active (\<^verbatim>\<open>gTransfer\<close> is
  not \<^verbatim>\<open>nil\<close>), every chunk the output pump reads from the child's PTY is handed to
  \<^verbatim>\<open>addReceivedData\<close>, whole and in order, and nothing is written to the local
  terminal, for one round of the loop and for any sequence of reads.  When no transfer
  is active and no trigger is detected, the chunk is written to the terminal verbatim
  provided the wrapper is not interrupting the child for a drag upload
  (\<^verbatim>\<open>gInterrupting\<close>) and the chunk is not the echo suppressed while dragged files
  are pending.
\<close>

theorem session_blackout:
  "(gTransfer g = Some t \<and> buf \<noteq> [] \<longrightarrow>
      wrapOutput_body h dragFile (buf, None) g = ([addReceivedData t buf], g, Continue)) \<and>
   (gTransfer g = Some t \<longrightarrow>
      wrapOutput h dragFile rs g = (queued t rs, g) \<and>
      list_all (\<lambda>e. \<not> writes_terminal e) (fst (wrapOutput h dragFile rs g))) \<and>
   (gTransfer g = None \<and> buf \<noteq> [] \<and> detectTrzsz buf = Inr (None, False) \<and>
    \<not> gInterrupting g \<and> \<not> (dragFile \<and> gDragFiles g \<noteq> None \<and> drag_echo h buf) \<longrightarrow>
      wrapOutput_body h dragFile (buf, None) g = ([StdoutWrite buf], g, Continue))"
proof (intro conjI impI)
  assume "gTransfer g = Some t \<and> buf \<noteq> []"
  then show "wrapOutput_body h dragFile (buf, None) g = ([addReceivedData t buf], g, Continue)"
    by (simp add: wrapOutput_body_active)
next
  assume a: "gTransfer g = Some t"
  show "wrapOutput h dragFile rs g = (queued t rs, g)"
    unfolding wrapOutput_def by (rule pump_output_active [OF a])
  then show "list_all (\<lambda>e. \<not> writes_terminal e) (fst (wrapOutput h dragFile rs g))"
    by (simp add: queued_silent)
next
  assume "gTransfer g = None \<and> buf \<noteq> [] \<and> detectTrzsz buf = Inr (None, False) \<and>
    \<not> gInterrupting g \<and> \<not> (dragFile \<and> gDragFiles g \<noteq> None \<and> drag_echo h buf)"
  then show "wrapOutput_body h dragFile (buf, None) g = ([StdoutWrite buf], g, Continue)"
    by (auto simp: wrapOutput_body_def drag_echo_def Let_def)
qed

theorem session_blackout_witness:
  "wrapOutput_body example_helpers
     False (''#DATA:5'', None)
     active_globals =
     ([addReceivedData 7 ''#DATA:5''],
      active_globals,
      Continue) \<and>
   fst (wrapOutput example_helpers
     False [(''#DATA:5'', None), ([], None), (''aGVsbG8='', None), ([], Some EOF)]
     active_globals) =
     [addReceivedData 7 ''#DATA:5'', addReceivedData 7 ''aGVsbG8='', StdoutClose] \<and>
   wrapOutput_body example_helpers
     False (''total 0'', None)
     idle_globals =
     ([StdoutWrite ''total 0''],
      idle_globals,
      Continue)"
proof -
  let ?h = "\<lparr>IsWindows = False, detectDragFiles = (\<lambda>b. (None, False)), trimVT100 = (\<lambda>b. b)\<rparr>"
  let ?ga = "\<lparr>gDragFiles = None, gDragHasDir = False, gInterrupting = False, gTransfer = Some 7\<rparr>"
  let ?gi = "\<lparr>gDragFiles = None, gDragHasDir = False, gInterrupting = False, gTransfer = None\<rparr>"
  have d: "detectTrzsz ''total 0'' = Inr (None, False)"
    by (simp add: detectTrzsz_def Contains_def)
  note a = session_blackout [of ?ga 7 "''#DATA:5''" ?h False
      "[(''#DATA:5'', None), ([], None), (''aGVsbG8='', None), ([], Some EOF)]"]
  note b = session_blackout [of ?gi 7 "''total 0''" ?h False "[]"]
  from a b d show ?thesis
    by (simp add: example_helpers_def idle_globals_def active_globals_def interrupting_globals_def)
qed

text \<open>
  The claim as stated (no transfer and no trigger: the chunk is written verbatim)
  fails while the wrapper interrupts the child for a drag upload: the echo of the
  interrupt is swallowed.
\<close>

theorem session_blackout_counterexample:
  "gTransfer interrupting_globals = None \<and>
   detectTrzsz ''^C'' = Inr (None, False) \<and>
   fst (wrapOutput_body
     example_helpers
     True (''^C'', None)
     interrupting_globals) = [] \<and>
   fst (wrapOutput_body
     example_helpers
     True (''^C'', None)
     interrupting_globals) \<noteq> [StdoutWrite ''^C'']"
  by (simp add: wrapOutput_body_def detectTrzsz_def Contains_def example_helpers_def idle_globals_def active_globals_def interrupting_globals_def)

subsection \<open>Compatibility echo\<close>

lemma Contains_marker_TRZSZ:
  assumes "Contains buf ''::TRZSZ:TRANSFER:''"
  shows "Index buf ''TRZSZ'' \<noteq> None"
proof -
  from assms obtain k where k: "Index buf ''::TRZSZ:TRANSFER:'' = Some k"
    by (auto simp: Contains_def)
  from Index_SomeD [OF k] have le: "k \<le> length buf"
    and p: "prefix ''::TRZSZ:TRANSFER:'' (drop k buf)" by simp_all
  from p obtain r where r: "drop k buf = ''::TRZSZ:TRANSFER:'' @ r" by (auto simp: prefix_def)
  have "buf = take k buf @ drop k buf" by simp
  then have "buf = (take k buf @ ''::'') @ (''TRZSZ'' @ '':TRANSFER:'' @ r)"
    unfolding r by simp
  moreover have "Index ((take k buf @ ''::'') @ (''TRZSZ'' @ '':TRANSFER:'' @ r)) ''TRZSZ'' \<noteq> None"
    by (rule Index_prefix) simp
  ultimately show ?thesis by simp
qed

lemma detectTrzsz_Some_Contains:
  "detectTrzsz buf = Inr (Some m, w) \<Longrightarrow> Contains buf ''::TRZSZ:TRANSFER:''"
  by (auto simp: detectTrzsz_def split: if_splits)

text \<open>
  What a round of the output pump does with a chunk in which the trigger is detected
  while no transfer is active.  Its first effect is the write to the local terminal of
  the chunk with the first occurrence of \<open>TRZSZ\<close> in the chunk replaced by \<open>TRZSZGO\<close>
  (one replacement: the chunk is split at the first offset where \<open>TRZSZ\<close> begins);
  the second and last effect is the start of \<^verbatim>\<open>handleTrzsz\<close> with the detected
  direction and platform hint.  The round leaves the globals as they are and hands
  no bytes to a transfer: the session is installed only by the goroutine started
  after the write.  The occurrence rewritten is never behind the marker's; it is the
  marker's own \<open>TRZSZ\<close> only when no \<open>TRZSZ\<close> begins before it in the chunk.
\<close>

theorem compatibility_echo:
  assumes idle: "gTransfer g = None" and det: "detectTrzsz buf = Inr (Some m, w)"
  shows "\<exists>i. Index buf ''TRZSZ'' = Some i \<and>
           buf = take i buf @ ''TRZSZ'' @ drop (i + 5) buf \<and>
           (\<forall>j<i. \<not> prefix ''TRZSZ'' (drop j buf)) \<and>
           wrapOutput_body h dragFile (buf, None) g =
             ([StdoutWrite (take i buf @ ''TRZSZGO'' @ drop (i + 5) buf),
               Go (handleTrzsz m w)], g, Continue) \<and>
           (\<forall>pre v f post. go_match buf pre m v f post \<longrightarrow>
              i \<le> length pre + 2 \<and>
              (i = length pre + 2 \<longrightarrow>
                 take i buf @ ''TRZSZGO'' @ drop (i + 5) buf =
                   pre @ ''::TRZSZGO:TRANSFER:'' @ [m] @ '':'' @ v @ string_of f @ post))"
proof -
  from det have ne: "buf \<noteq> []" using detectTrzsz_Nil by auto
  from Contains_marker_TRZSZ [OF detectTrzsz_Some_Contains [OF det]]
  obtain i where i: "Index buf ''TRZSZ'' = Some i" by auto
  from Index_SomeD [OF i] have le: "i \<le> length buf" and p: "prefix ''TRZSZ'' (drop i buf)"
    and first: "\<forall>j<i. \<not> prefix ''TRZSZ'' (drop j buf)" by simp_all
  have l5: "length ''TRZSZ'' = 5" by simp
  from prefix_drop_split [OF le p] have split: "buf = take i buf @ ''TRZSZ'' @ drop (i + 5) buf"
    unfolding l5 .
  have body: "wrapOutput_body h dragFile (buf, None) g =
      ([StdoutWrite (take i buf @ ''TRZSZGO'' @ drop (i + 5) buf), Go (handleTrzsz m w)], g, Continue)"
    using idle det ne i by (simp add: wrapOutput_body_def numeral_eq_Suc)
  have marker: "i \<le> length pre + 2 \<and>
      (i = length pre + 2 \<longrightarrow>
         take i buf @ ''TRZSZGO'' @ drop (i + 5) buf =
           pre @ ''::TRZSZGO:TRANSFER:'' @ [m] @ '':'' @ v @ string_of f @ post)"
    if g: "go_match buf pre m v f post" for pre v f post
  proof -
    from g have b: "buf = pre @ ''::TRZSZ:TRANSFER:'' @ [m] @ '':'' @ v @ string_of f @ post"
      by (simp add: go_match_def regex_match_def)
    have d: "drop (length pre + 2) buf = ''TRZSZ:TRANSFER:'' @ [m] @ '':'' @ v @ string_of f @ post"
      by (subst b) simp
    then have "prefix ''TRZSZ'' (drop (length pre + 2) buf)" by simp
    with first have le2: "i \<le> length pre + 2" by (meson not_le)
    have tk: "take (length pre + 2) buf = pre @ ''::''"
      by (subst b) simp
    have d7: "drop (length pre + 2 + 5) buf = '':TRANSFER:'' @ [m] @ '':'' @ v @ string_of f @ post"
      by (subst b) simp
    show ?thesis using le2 tk d7 by auto
  qed
  from i split first body marker show ?thesis by blast
qed

theorem compatibility_echo_witness:
  "wrapOutput_body example_helpers
     False ([CHR 0x1B, CHR ''7'', CHR 0x07] @ ''::TRZSZ:TRANSFER:S:1.1.3:0'', None)
     idle_globals =
     ([StdoutWrite ([CHR 0x1B, CHR ''7'', CHR 0x07] @ ''::TRZSZGO:TRANSFER:S:1.1.3:0''),
       Go (handleTrzsz CHR ''S'' False)],
      idle_globals,
      Continue)"
proof -
  let ?buf = "[CHR 0x1B, CHR ''7'', CHR 0x07] @ ''::TRZSZ:TRANSFER:S:1.1.3:0''"
  let ?g = "\<lparr>gDragFiles = None, gDragHasDir = False, gInterrupting = False, gTransfer = None\<rparr>"
  have d: "detectTrzsz ?buf = Inr (Some CHR ''S'', False)"
    by (simp add: detectTrzsz_def Contains_def FindSubmatch_def trzszRegexp_def version_re_def
        flag_re_def digit_def string_of_def)
  have i: "Index ?buf ''TRZSZ'' = Some 5" by simp
  from compatibility_echo [of ?g ?buf "CHR ''S''" False, OF _ d] i
  show ?thesis by (auto simp: example_helpers_def idle_globals_def active_globals_def interrupting_globals_def)
qed

text \<open>
  Claim C3 (compatibility echo).  The echo is the compatibility handshake: in every
  chunk in which the trigger is detected, it is the \<open>TRZSZ\<close> of the marker that has to
  be rewritten to \<open>TRZSZGO\<close>.  The wrapper finds the marker with the pattern but
  rewrites with a search for the first \<open>TRZSZ\<close> of the chunk, and so it breaks the
  claim on a chunk with an earlier \<open>TRZSZ\<close>.  For the echo of the command line
  \<^verbatim>\<open>tsz TRZSZ.txt\<close> read together with the marker, the trigger is detected, the file
  name is altered to \<^verbatim>\<open>TRZSZGO.txt\<close>, and the marker is written to the terminal
  unchanged, which is not the chunk with the marker rewritten.
\<close>

theorem compatibility_echo_failing_input:
  "detectTrzsz (''tsz TRZSZ.txt'' @ [CHR 0x0D, CHR 0x0A] @ ''::TRZSZ:TRANSFER:S:1.1.3:0'') =
     Inr (Some CHR ''S'', False) \<and>
   fst (wrapOutput_body
     example_helpers
     False (''tsz TRZSZ.txt'' @ [CHR 0x0D, CHR 0x0A] @ ''::TRZSZ:TRANSFER:S:1.1.3:0'', None)
     idle_globals) =
     [StdoutWrite (''tsz TRZSZGO.txt'' @ [CHR 0x0D, CHR 0x0A] @ ''::TRZSZ:TRANSFER:S:1.1.3:0''),
      Go (handleTrzsz CHR ''S'' False)] \<and>
   ''tsz TRZSZGO.txt'' @ [CHR 0x0D, CHR 0x0A] @ ''::TRZSZ:TRANSFER:S:1.1.3:0'' \<noteq>
   ''tsz TRZSZ.txt'' @ [CHR 0x0D, CHR 0x0A] @ ''::TRZSZGO:TRANSFER:S:1.1.3:0''"
proof -
  have d: "detectTrzsz (''tsz TRZSZ.txt'' @ [CHR 0x0D, CHR 0x0A] @ ''::TRZSZ:TRANSFER:S:1.1.3:0'') =
     Inr (Some CHR ''S'', False)"
    by (simp add: detectTrzsz_def Contains_def FindSubmatch_def trzszRegexp_def version_re_def
        flag_re_def digit_def string_of_def)
  show ?thesis
    using d by (simp add: wrapOutput_body_def example_helpers_def idle_globals_def active_globals_def interrupting_globals_def)
qed

subsection \<open>Input suppression\<close>





subsection \<open>Interrupts\<close>

text \<open>
  Claim C6 (interrupt routing), as amended.  For every delivery of the interrupt signal,
  \<^verbatim>\<open>stopTransferringFiles\<close> of the active transfer is called when there is one;
  otherwise the handler does nothing.  The interrupt that reaches the child while no
  transfer is active is the key stroke: the byte \<open>0x03\<close> read from the local stdin is
  written to the child's PTY by the input pump (unless drag-file detection claims
  the chunk).
\<close>

theorem interrupt_routing:
  "(gTransfer g = Some t \<longrightarrow> handleSigint g = [stopTransferringFiles t]) \<and>
   (gTransfer g = None \<longrightarrow> handleSigint g = []) \<and>
   (gTransfer g = None \<and> (dragFile \<longrightarrow> fst (detectDragFiles h [CHR 0x03]) = None) \<longrightarrow>
      fst (wrapInput_body h dragFile ([CHR 0x03], None) g) = [PtyStdinWrite [CHR 0x03]])"
  by (auto simp: handleSigint_def wrapInput_body_def Let_def split: prod.splits option.splits)

theorem interrupt_routing_witness:
  "handleSigint active_globals =
     [stopTransferringFiles 7] \<and>
   fst (wrapInput_body
     example_helpers
     True ([CHR 0x03], None)
     idle_globals) =
     [PtyStdinWrite [CHR 0x03]]"
proof -
  let ?h = "\<lparr>IsWindows = False, detectDragFiles = (\<lambda>b. (None, False)), trimVT100 = (\<lambda>b. b)\<rparr>"
  let ?ga = "\<lparr>gDragFiles = None, gDragHasDir = False, gInterrupting = False, gTransfer = Some 7\<rparr>"
  let ?gi = "\<lparr>gDragFiles = None, gDragHasDir = False, gInterrupting = False, gTransfer = None\<rparr>"
  from interrupt_routing [of ?ga 7 True ?h] interrupt_routing [of ?gi 7 True ?h]
  show ?thesis by (simp add: example_helpers_def idle_globals_def active_globals_def interrupting_globals_def)
qed

text \<open>
  The claim as stated (without a transfer the signal is forwarded to the child) fails:
  the handler of the signal writes nothing to the child.
\<close>

theorem interrupt_routing_counterexample:
  "gTransfer idle_globals = None \<and>
   handleSigint idle_globals = [] \<and>
   \<not> list_ex writes_child
     (handleSigint idle_globals)"
  by (simp add: handleSigint_def example_helpers_def idle_globals_def active_globals_def interrupting_globals_def)

section \<open>The sender\<close>

lemma sends_frames_simps [simp]:
  "sends_frames (SendConfig a act tm w)" "sends_frames (SendFiles fs)"
  "\<not> sends_frames (Stderr err)" "\<not> sends_frames (Stdout s)" "\<not> sends_frames StdoutSync"
  "\<not> sends_frames EnableVirtualTerminal" "\<not> sends_frames ResetVirtualTerminal"
  "\<not> sends_frames SetupConsoleOutput" "\<not> sends_frames TermMakeRaw"
  "\<not> sends_frames TermRestore" "\<not> sends_frames (NewTransfer n)"
  "\<not> sends_frames GoWrapStdinInput" "\<not> sends_frames HandleServerSignal"
  "\<not> sends_frames RecvAction" "\<not> sends_frames RecvExit"
  "\<not> sends_frames (ServerExit msg)" "\<not> sends_frames (ServerError err)"
  by (simp_all add: sends_frames_def)

lemma TszMain_unreadable:
  "checkPathsReadable env (File args) (Directory args) = Inl err \<Longrightarrow>
     TszMain env args = ([Stderr err], - 1)"
  by (simp add: TszMain_def)

lemma TszMain_duplicate:
  "checkPathsReadable env (File args) (Directory args) = Inr files \<Longrightarrow>
   Overwrite args \<Longrightarrow> checkDuplicateNames files = Some err \<Longrightarrow>
     TszMain env args = ([Stderr err], - 2)"
  by (simp add: TszMain_def)

lemma TszMain_tmux:
  "checkPathsReadable env (File args) (Directory args) = Inr files \<Longrightarrow>
   Overwrite args \<longrightarrow> checkDuplicateNames files = None \<Longrightarrow>
   checkTmux env = Inl err \<Longrightarrow>
     TszMain env args = ([Stderr err], - 3)"
  by (auto simp: TszMain_def)

lemma TszMain_raw:
  "checkPathsReadable env (File args) (Directory args) = Inr files \<Longrightarrow>
   Overwrite args \<longrightarrow> checkDuplicateNames files = None \<Longrightarrow>
   checkTmux env = Inr (tmuxMode, out, w) \<Longrightarrow> MakeRaw env = Some err \<Longrightarrow>
     TszMain env args = (preamble env tmuxMode args @ [Stderr err] @ deferredReset env, - 4)"
  by (auto simp: TszMain_def preamble_def downgradeNotices_def controlModeNotice_def
      windowsNotice_def Let_def)

lemma TszMain_handshake:
  "checkPathsReadable env (File args) (Directory args) = Inr files \<Longrightarrow>
   Overwrite args \<longrightarrow> checkDuplicateNames files = None \<Longrightarrow>
   checkTmux env = Inr (tmuxMode, out, w) \<Longrightarrow> MakeRaw env = None \<Longrightarrow>
     TszMain env args =
       (preamble env tmuxMode args @
        [TermMakeRaw, NewTransfer out, GoWrapStdinInput, HandleServerSignal] @
        fst (sendFiles env files (effectiveArgs env tmuxMode args) tmuxMode w) @
        (case snd (sendFiles env files (effectiveArgs env tmuxMode args) tmuxMode w) of
           None \<Rightarrow> [] | Some err \<Rightarrow> [ServerError err]) @
        [TermRestore] @ deferredReset env, 0)"
  by (auto simp: TszMain_def preamble_def downgradeNotices_def controlModeNotice_def
      windowsNotice_def effectiveArgs_def Let_def split: prod.splits)

lemma TszMain_cases:
  obtains (unreadable) err where "checkPathsReadable env (File args) (Directory args) = Inl err"
  | (duplicate) files err where "checkPathsReadable env (File args) (Directory args) = Inr files"
      "Overwrite args" "checkDuplicateNames files = Some err"
  | (tmux) files err where "checkPathsReadable env (File args) (Directory args) = Inr files"
      "Overwrite args \<longrightarrow> checkDuplicateNames files = None" "checkTmux env = Inl err"
  | (raw) files tmuxMode out w err where
      "checkPathsReadable env (File args) (Directory args) = Inr files"
      "Overwrite args \<longrightarrow> checkDuplicateNames files = None"
      "checkTmux env = Inr (tmuxMode, out, w)" "MakeRaw env = Some err"
  | (handshake) files tmuxMode out w where
      "checkPathsReadable env (File args) (Directory args) = Inr files"
      "Overwrite args \<longrightarrow> checkDuplicateNames files = None"
      "checkTmux env = Inr (tmuxMode, out, w)" "MakeRaw env = None"
proof (cases "checkPathsReadable env (File args) (Directory args)")
  case (Inl err)
  then show ?thesis by (rule unreadable)
next
  case (Inr files)
  show ?thesis
  proof (cases "Overwrite args \<longrightarrow> checkDuplicateNames files = None")
    case False
    with Inr show ?thesis using duplicate by auto
  next
    case ok: True
    show ?thesis
    proof (cases "checkTmux env")
      case (Inl err)
      with Inr ok show ?thesis using tmux by blast
    next
      case tm: (Inr r)
      obtain tmuxMode out w where r: "r = (tmuxMode, out, w)" by (cases r)
      show ?thesis
      proof (cases "MakeRaw env")
        case None
        with Inr ok tm r show ?thesis using handshake by blast
      next
        case (Some err)
        with Inr ok tm r show ?thesis using raw by blast
      qed
    qed
  qed
qed

lemma sendFiles_refused:
  "recvAction env = Inr action \<Longrightarrow> \<not> Confirm action \<Longrightarrow>
     sendFiles env files args tmuxMode w = ([RecvAction, ServerExit ''Cancelled''], None)"
  by (simp add: sendFiles_def)

lemma preamble_no_frames: "list_all (\<lambda>e. \<not> sends_frames e) (preamble env tm args)"
  by (simp add: preamble_def downgradeNotices_def prepareTerminal_def Let_def)

lemma deferredReset_no_frames: "list_all (\<lambda>e. \<not> sends_frames e) (deferredReset env)"
  by (simp add: deferredReset_def)

subsection \<open>Handshake refusal\<close>

text \<open>
  Claim C5 (handshake refusal).  When the ACT frame received has \<open>confirm = false\<close>,
  \<^verbatim>\<open>sendFiles\<close> calls \<^verbatim>\<open>serverExit("Cancelled")\<close> and returns \<^verbatim>\<open>nil\<close>; no run of
  \<^verbatim>\<open>TszMain\<close> with such a peer sends a CFG frame or file data, and the run that reaches
  the handshake ends with the exit code 0, its effects after the marker being the
  set-up of the transfer, the receipt of the ACT frame, the EXIT and the restoring of
  the terminal.
\<close>

theorem handshake_refusal:
  assumes act: "recvAction env = Inr action" and no: "\<not> Confirm action"
  shows "sendFiles env files args tmuxMode w = ([RecvAction, ServerExit ''Cancelled''], None) \<and>
         list_all (\<lambda>e. \<not> sends_frames e) (fst (TszMain env args)) \<and>
         (checkPathsReadable env (File args) (Directory args) = Inr files \<and>
          (Overwrite args \<longrightarrow> checkDuplicateNames files = None) \<and>
          checkTmux env = Inr (tmuxMode, out, w) \<and> MakeRaw env = None \<longrightarrow>
            TszMain env args =
              (preamble env tmuxMode args @
               [TermMakeRaw, NewTransfer out, GoWrapStdinInput, HandleServerSignal,
                RecvAction, ServerExit ''Cancelled'', TermRestore] @ deferredReset env, 0))"
proof (intro conjI impI)
  show "sendFiles env files args tmuxMode w = ([RecvAction, ServerExit ''Cancelled''], None)"
    by (rule sendFiles_refused [OF act no])
  show "list_all (\<lambda>e. \<not> sends_frames e) (fst (TszMain env args))"
  proof (cases env args rule: TszMain_cases)
    case (unreadable err)
    then show ?thesis by (simp add: TszMain_unreadable)
  next
    case (duplicate files err)
    then show ?thesis by (simp add: TszMain_duplicate)
  next
    case (tmux files err)
    then show ?thesis by (simp add: TszMain_tmux)
  next
    case (raw files tmuxMode out w err)
    then show ?thesis
      by (simp add: TszMain_raw preamble_no_frames deferredReset_no_frames)
  next
    case (handshake files tmuxMode out w)
    then show ?thesis
      by (simp add: TszMain_handshake sendFiles_refused [OF act no] preamble_no_frames
          deferredReset_no_frames)
  qed
next
  assume "checkPathsReadable env (File args) (Directory args) = Inr files \<and>
          (Overwrite args \<longrightarrow> checkDuplicateNames files = None) \<and>
          checkTmux env = Inr (tmuxMode, out, w) \<and> MakeRaw env = None"
  then show "TszMain env args =
              (preamble env tmuxMode args @
               [TermMakeRaw, NewTransfer out, GoWrapStdinInput, HandleServerSignal,
                RecvAction, ServerExit ''Cancelled'', TermRestore] @ deferredReset env, 0)"
    by (simp add: TszMain_handshake sendFiles_refused [OF act no])
qed

theorem handshake_refusal_witness:
  "sendFiles (example_env\<lparr>recvAction := Inr (example_action\<lparr>Confirm := False\<rparr>)\<rparr>)
     [example_file ''a.txt''] example_args noTmux (- 1) =
     ([RecvAction, ServerExit ''Cancelled''], None) \<and>
   snd (TszMain (example_env\<lparr>recvAction := Inr (example_action\<lparr>Confirm := False\<rparr>)\<rparr>)
     example_args) = 0"
proof -
  let ?env = "example_env\<lparr>recvAction := Inr (example_action\<lparr>Confirm := False\<rparr>)\<rparr>"
  have a: "recvAction ?env = Inr (example_action\<lparr>Confirm := False\<rparr>)" by simp
  have b: "\<not> Confirm (example_action\<lparr>Confirm := False\<rparr>)" by simp
  from handshake_refusal [OF a b, of "[example_file ''a.txt'']" example_args noTmux "- 1" 1]
  show ?thesis
    by (simp add: example_env_def example_args_def)
qed

subsection \<open>The trigger marker\<close>

lemma digit_char: "k < 10 \<Longrightarrow> is_digit (''0123456789'' ! k)"
proof -
  assume "k < 10"
  then have "k = 0 \<or> k = 1 \<or> k = 2 \<or> k = 3 \<or> k = 4 \<or> k = 5 \<or> k = 6 \<or> k = 7 \<or> k = 8 \<or> k = 9"
    by arith
  then show ?thesis by (auto simp: is_digit_def)
qed

lemma decimal_digits: "list_all is_digit (decimal n)"
proof (induction n rule: decimal.induct)
  case (1 n)
  show ?case
  proof (cases "n < 10")
    case True
    then show ?thesis by (subst decimal.simps) (simp add: digit_char)
  next
    case False
    with 1 have "list_all is_digit (decimal (n div 10))" by simp
    moreover have "is_digit (''0123456789'' ! (n mod 10))" by (rule digit_char) simp
    ultimately show ?thesis using False by (subst decimal.simps) simp
  qed
qed

lemma decimal_length: "0 < k \<Longrightarrow> n < 10 ^ k \<Longrightarrow> length (decimal n) \<le> k"
proof (induction k arbitrary: n)
  case 0
  then show ?case by simp
next
  case (Suc k)
  show ?case
  proof (cases "n < 10")
    case True
    then show ?thesis by (subst decimal.simps) simp
  next
    case False
    with Suc.prems have k: "0 < k" by (cases k) auto
    from Suc.prems have "n div 10 < 10 ^ k"
      by (simp add: less_mult_imp_div_less mult.commute)
    from Suc.IH [OF k this] False show ?thesis by (subst decimal.simps) simp
  qed
qed

lemma fmt_013d_nonneg:
  assumes "0 \<le> x" "x < 10 ^ 13"
  shows "length (fmt_013d x) = 13 \<and> list_all is_digit (fmt_013d x)"
proof -
  from assms have "nat x < 10 ^ 13" by (simp add: nat_less_iff)
  then have "length (decimal (nat x)) \<le> 13" by (intro decimal_length) simp_all
  moreover have "list_all is_digit (replicate k CHR ''0'')" for k
    by (simp add: list_all_iff is_digit_def)
  ultimately show ?thesis
    using assms decimal_digits [of "nat x"] by (simp add: fmt_013d_def)
qed

lemma int64_id: "- (2 ^ 63) \<le> x \<Longrightarrow> x < 2 ^ 63 \<Longrightarrow> int64 x = x"
  by (simp add: int64_def)

lemma uniqueID_value:
  assumes "0 \<le> UnixMilli env"
  shows "uniqueID env tmuxMode =
           UnixMilli env mod 100000000000 * 100 +
           (if isRunningOnWindows env then 10 else if tmuxMode = tmuxNormalMode then 20 else 0)"
proof -
  define r where "r = UnixMilli env mod 100000000000"
  have r: "0 \<le> r" "r < 100000000000" by (simp_all add: r_def)
  have g: "go_rem (UnixMilli env) 100000000000 = r"
    using assms by (cases "UnixMilli env = 0") (simp_all add: go_rem_def r_def)
  have a: "int64 (r * 100) = r * 100" using r by (intro int64_id) simp_all
  have b: "int64 (r * 100 + 10) = r * 100 + 10" using r by (intro int64_id) simp_all
  have c: "int64 (r * 100 + 20) = r * 100 + 20" using r by (intro int64_id) simp_all
  show ?thesis
    unfolding uniqueID_def g r_def [symmetric] by (simp add: a b c Let_def)
qed

lemma marker_written:
  assumes "checkPathsReadable env (File args) (Directory args) = Inr files"
    "Overwrite args \<longrightarrow> checkDuplicateNames files = None"
    "checkTmux env = Inr (tmuxMode, out, w)"
  shows "\<exists>pre post. fst (TszMain env args) =
           pre @ [Stdout (marker (kTrzszVersion env) (uniqueID env tmuxMode)), StdoutSync] @ post"
proof (cases "MakeRaw env")
  case None
  from TszMain_handshake [OF assms None] show ?thesis
    unfolding preamble_def by (metis append.assoc fst_conv)
next
  case (Some err)
  from TszMain_raw [OF assms Some] show ?thesis
    unfolding preamble_def by (metis append.assoc fst_conv)
qed

text \<open>
  Claim C8 (trigger marker format), as amended.  Every run of the sender that gets past
  the checks of the paths, of duplicate names and of tmux writes, in one write to
  stdout, the line \<^verbatim>\<open>\x1b7\x07::TRZSZ:TRANSFER:S:<version>:<id>\r\n\<close> with the mode byte
  \<open>S\<close>.  When the clock is not before the Unix epoch, the id is the \<^verbatim>\<open>%013d\<close> rendering
  of (unix-milliseconds mod \<^verbatim>\<open>10^11\<close>) \<open>* 100\<close> plus the platform offset 0, 10 or 20, which
  is computed without overflow, is not negative and is less than \<^verbatim>\<open>10^13\<close>: exactly 13
  decimal digits.
\<close>

theorem marker_format:
  assumes "checkPathsReadable env (File args) (Directory args) = Inr files"
    and "Overwrite args \<longrightarrow> checkDuplicateNames files = None"
    and "checkTmux env = Inr (tmuxMode, out, w)"
  shows "\<exists>pre post uid.
           fst (TszMain env args) =
             pre @ [Stdout ([CHR 0x1B, CHR ''7'', CHR 0x07] @ ''::TRZSZ:TRANSFER:S:'' @
                            kTrzszVersion env @ '':'' @ fmt_013d uid @ [CHR 0x0D, CHR 0x0A]),
                    StdoutSync] @ post \<and>
           uid = uniqueID env tmuxMode \<and>
           (0 \<le> UnixMilli env \<longrightarrow>
              uid = UnixMilli env mod 10 ^ 11 * 100 +
                    (if isRunningOnWindows env then 10
                     else if tmuxMode = tmuxNormalMode then 20 else 0) \<and>
              0 \<le> uid \<and> uid < 10 ^ 13 \<and>
              length (fmt_013d uid) = 13 \<and> list_all is_digit (fmt_013d uid))"
proof -
  define uid where "uid = uniqueID env tmuxMode"
  have digits: "uid = UnixMilli env mod 10 ^ 11 * 100 +
                    (if isRunningOnWindows env then 10
                     else if tmuxMode = tmuxNormalMode then 20 else 0) \<and>
              0 \<le> uid \<and> uid < 10 ^ 13 \<and>
              length (fmt_013d uid) = 13 \<and> list_all is_digit (fmt_013d uid)"
    if clock: "0 \<le> UnixMilli env"
  proof -
    have v: "uid = UnixMilli env mod 10 ^ 11 * 100 +
                   (if isRunningOnWindows env then 10
                    else if tmuxMode = tmuxNormalMode then 20 else 0)"
      unfolding uid_def by (simp add: uniqueID_value [OF clock])
    have r: "0 \<le> UnixMilli env mod 10 ^ 11" "UnixMilli env mod 10 ^ 11 < 10 ^ 11"
      by simp_all
    from v r have b: "0 \<le> uid" "uid < 10 ^ 13" by (auto split: if_splits)
    from v b fmt_013d_nonneg [OF b] show ?thesis by blast
  qed
  from marker_written [OF assms(1-3)] obtain pre post where
    "fst (TszMain env args) =
       pre @ [Stdout (marker (kTrzszVersion env) uid), StdoutSync] @ post"
    unfolding uid_def by blast
  then have "fst (TszMain env args) =
             pre @ [Stdout ([CHR 0x1B, CHR ''7'', CHR 0x07] @ ''::TRZSZ:TRANSFER:S:'' @
                            kTrzszVersion env @ '':'' @ fmt_013d uid @ [CHR 0x0D, CHR 0x0A]),
                    StdoutSync] @ post"
    by (simp add: marker_def)
  with digits uid_def show ?thesis by blast
qed

theorem marker_format_witness:
  "0 \<le> UnixMilli example_env \<and>
   uniqueID example_env noTmux = 9876543210900 \<and>
   fmt_013d (uniqueID example_env noTmux) = ''9876543210900'' \<and>
   length (fmt_013d (uniqueID example_env noTmux)) = 13 \<and>
   list_all is_digit (fmt_013d (uniqueID example_env noTmux))"
proof -
  have a: "checkPathsReadable example_env (File example_args) (Directory example_args) =
      Inr [example_file ''a.txt'']"
    by (simp add: example_env_def example_args_def)
  have b: "Overwrite example_args \<longrightarrow> checkDuplicateNames [example_file ''a.txt''] = None"
    by (simp add: example_args_def)
  have c: "checkTmux example_env = Inr (noTmux, 1, - 1)" by (simp add: example_env_def)
  have d: "0 \<le> UnixMilli example_env" by (simp add: example_env_def)
  from marker_format [OF a b c] d obtain uid where
    u: "uid = uniqueID example_env noTmux"
    and v: "uid = UnixMilli example_env mod 10 ^ 11 * 100 +
                 (if isRunningOnWindows example_env then 10
                  else if noTmux = tmuxNormalMode then 20 else 0)"
    and l: "length (fmt_013d uid) = 13" "list_all is_digit (fmt_013d uid)"
    by blast
  from v have e: "uid = 9876543210900" by (simp add: example_env_def)
  have f: "fmt_013d 9876543210900 = ''9876543210900''"
    by (simp add: fmt_013d_def decimal.simps)
  from d u e f l show ?thesis by simp
qed

text \<open>
  The claim as stated (for every invocation) fails for a clock before the epoch:
  \<^verbatim>\<open>UnixMilli\<close> is negative, Go's remainder keeps the sign, and the id written is a
  minus sign followed by 12 digits.
\<close>

theorem marker_format_counterexample:
  "checkPathsReadable (example_env\<lparr>UnixMilli := - 1\<rparr>) (File example_args)
     (Directory example_args) = Inr [example_file ''a.txt''] \<and>
   checkTmux (example_env\<lparr>UnixMilli := - 1\<rparr>) = Inr (noTmux, 1, - 1) \<and>
   uniqueID (example_env\<lparr>UnixMilli := - 1\<rparr>) noTmux = - 100 \<and>
   hd (fst (TszMain (example_env\<lparr>UnixMilli := - 1\<rparr>) example_args)) =
     Stdout ([CHR 0x1B, CHR ''7'', CHR 0x07] @ ''::TRZSZ:TRANSFER:S:1.1.3:-000000000100'' @
             [CHR 0x0D, CHR 0x0A]) \<and>
   \<not> list_all is_digit ''-000000000100''"
proof -
  let ?env = "example_env\<lparr>UnixMilli := - 1\<rparr>"
  have a: "checkPathsReadable ?env (File example_args) (Directory example_args) =
      Inr [example_file ''a.txt'']"
    by (simp add: example_env_def example_args_def)
  have b: "Overwrite example_args \<longrightarrow> checkDuplicateNames [example_file ''a.txt''] = None"
    by (simp add: example_args_def)
  have c: "checkTmux ?env = Inr (noTmux, 1, - 1)" by (simp add: example_env_def)
  have d: "MakeRaw ?env = None" by (simp add: example_env_def)
  have u: "uniqueID ?env noTmux = - 100"
    by (simp add: uniqueID_def example_env_def go_rem_def int64_def)
  have f: "fmt_013d (- 100) = ''-000000000100''"
    by (simp add: fmt_013d_def decimal.simps) (simp add: numeral_eq_Suc)
  have p: "preamble ?env noTmux example_args =
      [Stdout ([CHR 0x1B, CHR ''7'', CHR 0x07] @ ''::TRZSZ:TRANSFER:S:1.1.3:-000000000100'' @
             [CHR 0x0D, CHR 0x0A]), StdoutSync]"
    unfolding preamble_def u marker_def f
    by (simp add: downgradeNotices_def prepareTerminal_def example_env_def example_args_def)
  have h: "hd (fst (TszMain ?env example_args)) =
     Stdout ([CHR 0x1B, CHR ''7'', CHR 0x07] @ ''::TRZSZ:TRANSFER:S:1.1.3:-000000000100'' @
             [CHR 0x0D, CHR 0x0A])"
    unfolding TszMain_handshake [OF a b c d] p by simp
  have n: "\<not> list_all is_digit ''-000000000100''" by (simp add: is_digit_def)
  from a c u h n show ?thesis by blast
qed

subsection \<open>Duplicate names\<close>

text \<open>
  Claim C7 (duplicate-name check), as amended.  When overwriting was requested
  (\<^verbatim>\<open>-y\<close>) and two of the FileRecords have the same display name, the sender writes
  the error to stderr and exits with the code \<open>-2\<close>; nothing else happens, so no marker
  is written and no transfer begins.
\<close>

theorem duplicate_names:
  assumes "checkPathsReadable env (File args) (Directory args) = Inr files"
    and "Overwrite args" and "\<not> distinct (map displayName files)"
  shows "TszMain env args = ([Stderr (Err ''Duplicate name'')], - 2)"
  using assms by (simp add: TszMain_duplicate checkDuplicateNames_def)

theorem duplicate_names_witness:
  "\<not> distinct (map displayName [example_file ''a.txt'', example_file ''a.txt'']) \<and>
   TszMain example_env (example_args\<lparr>Overwrite := True, File := [''a.txt'', ''a.txt'']\<rparr>) =
     ([Stderr (Err ''Duplicate name'')], - 2)"
proof -
  let ?args = "example_args\<lparr>Overwrite := True, File := [''a.txt'', ''a.txt'']\<rparr>"
  have a: "checkPathsReadable example_env (File ?args) (Directory ?args) =
      Inr [example_file ''a.txt'', example_file ''a.txt'']"
    by (simp add: example_env_def example_args_def)
  have b: "Overwrite ?args" by simp
  have c: "\<not> distinct (map displayName [example_file ''a.txt'', example_file ''a.txt''])"
    by simp
  from duplicate_names [OF a b c] c show ?thesis by simp
qed

text \<open>
  The claim as stated (for every invocation) fails without \<^verbatim>\<open>-y\<close>: the names are
  not checked, the run sends its configuration and files and exits with the code 0.
\<close>

theorem duplicate_names_counterexample:
  "checkPathsReadable example_env [''a.txt'', ''a.txt''] False =
     Inr [example_file ''a.txt'', example_file ''a.txt''] \<and>
   \<not> distinct (map displayName [example_file ''a.txt'', example_file ''a.txt'']) \<and>
   snd (TszMain example_env (example_args\<lparr>File := [''a.txt'', ''a.txt'']\<rparr>)) = 0 \<and>
   list_ex sends_frames (fst (TszMain example_env (example_args\<lparr>File := [''a.txt'', ''a.txt'']\<rparr>)))"
proof -
  let ?args = "example_args\<lparr>File := [''a.txt'', ''a.txt'']\<rparr>"
  have a: "checkPathsReadable example_env (File ?args) (Directory ?args) =
      Inr [example_file ''a.txt'', example_file ''a.txt'']"
    by (simp add: example_env_def example_args_def)
  have b: "Overwrite ?args \<longrightarrow>
      checkDuplicateNames [example_file ''a.txt'', example_file ''a.txt''] = None"
    by (simp add: example_args_def)
  have c: "checkTmux example_env = Inr (noTmux, 1, - 1)" by (simp add: example_env_def)
  have d: "MakeRaw example_env = None" by (simp add: example_env_def)
  have s: "list_ex sends_frames
      (fst (sendFiles example_env [example_file ''a.txt'', example_file ''a.txt'']
         (effectiveArgs example_env noTmux ?args) noTmux (- 1)))"
    by (simp add: sendFiles_def example_env_def example_action_def Let_def)
  have "list_ex sends_frames (fst (TszMain example_env ?args))"
    unfolding TszMain_handshake [OF a b c d] using s by simp
  moreover have "snd (TszMain example_env ?args) = 0"
    unfolding TszMain_handshake [OF a b c d] by simp
  moreover have "checkPathsReadable example_env [''a.txt'', ''a.txt''] False =
     Inr [example_file ''a.txt'', example_file ''a.txt'']"
    by (simp add: example_env_def)
  ultimately show ?thesis by simp
qed

lemma sendFiles_config:
  assumes "recvAction env = Inr action" "Confirm action" "Directory args \<longrightarrow> SupportDirectory action"
  shows "\<exists>rest. fst (sendFiles env files args tmuxMode w) =
           [RecvAction,
            SendConfig \<lparr>Overwrite = Overwrite args,
                        Binary = (Binary args \<and> SupportBinary action),
                        Directory = Directory args\<rparr> action tmuxMode w] @ rest"
  using assms
  by (auto simp: sendFiles_def Let_def baseArgs.truncate_def split: option.splits sum.splits)

lemma sendFiles_error_Binary:
  "snd (sendFiles env files (args\<lparr>Binary := b\<rparr>) tmuxMode w) =
   snd (sendFiles env files args tmuxMode w)"
  by (auto simp: sendFiles_def Let_def split: option.splits sum.splits)

lemma effectiveArgs_fields:
  "Binary (effectiveArgs env tm args) =
     (Binary args \<and> tm \<noteq> tmuxControlMode \<and> \<not> isRunningOnWindows env)"
  "Overwrite (effectiveArgs env tm args) = Overwrite args"
  "Directory (effectiveArgs env tm args) = Directory args"
  "File (effectiveArgs env tm args) = File args"
  by (auto simp: effectiveArgs_def)

lemma TszMain_code_Binary: "snd (TszMain env (args\<lparr>Binary := b\<rparr>)) = snd (TszMain env args)"
proof (cases env args rule: TszMain_cases)
  case (unreadable err)
  then show ?thesis by (simp add: TszMain_unreadable)
next
  case (duplicate files err)
  then show ?thesis by (simp add: TszMain_duplicate)
next
  case (tmux files err)
  then show ?thesis by (simp add: TszMain_tmux)
next
  case (raw files tmuxMode out w err)
  then show ?thesis by (simp add: TszMain_raw)
next
  case (handshake files tmuxMode out w)
  then show ?thesis by (simp add: TszMain_handshake)
qed

lemma sendFiles_no_Stdout: "Stdout s \<notin> set (fst (sendFiles env files args tmuxMode w))"
  by (auto simp: sendFiles_def Let_def split: option.splits sum.splits)

lemma prepareTerminal_Stdout:
  "Stdout s \<in> set (prepareTerminal env tmuxMode) \<Longrightarrow> \<exists>r. s = CHR 0x0A # r"
  by (auto simp: prepareTerminal_def Let_def split: if_splits)

lemma notices_differ:
  "controlModeNotice \<noteq> windowsNotice"
  "controlModeNotice \<noteq> marker v u" "windowsNotice \<noteq> marker v u"
  "controlModeNotice \<noteq> CHR 0x0A # r" "windowsNotice \<noteq> CHR 0x0A # r"
  by (simp_all add: controlModeNotice_def windowsNotice_def marker_def)

lemma handshake_notices:
  assumes "checkPathsReadable env (File args) (Directory args) = Inr files"
    and "Overwrite args \<longrightarrow> checkDuplicateNames files = None"
    and "checkTmux env = Inr (tmuxMode, out, w)"
    and "MakeRaw env = None"
  shows "Stdout controlModeNotice \<in> set (fst (TszMain env args)) \<longleftrightarrow>
           Binary args \<and> tmuxMode = tmuxControlMode"
    and "Stdout windowsNotice \<in> set (fst (TszMain env args)) \<longleftrightarrow>
           Binary args \<and> tmuxMode \<noteq> tmuxControlMode \<and> isRunningOnWindows env"
proof -
  have d: "Stdout s \<notin> set (deferredReset env)" for s
    by (simp add: deferredReset_def)
  have e: "Stdout s \<notin> set (case r of None \<Rightarrow> [] | Some err \<Rightarrow> [ServerError err])" for s r
    by (cases r) simp_all
  have p1: "Stdout controlModeNotice \<notin> set (prepareTerminal env tmuxMode)"
    using prepareTerminal_Stdout notices_differ(4) by blast
  have p2: "Stdout windowsNotice \<notin> set (prepareTerminal env tmuxMode)"
    using prepareTerminal_Stdout notices_differ(5) by blast
  show "Stdout controlModeNotice \<in> set (fst (TszMain env args)) \<longleftrightarrow>
           Binary args \<and> tmuxMode = tmuxControlMode"
    unfolding TszMain_handshake [OF assms] preamble_def
    using notices_differ p1
    by (auto simp: sendFiles_no_Stdout d e downgradeNotices_def)
  show "Stdout windowsNotice \<in> set (fst (TszMain env args)) \<longleftrightarrow>
           Binary args \<and> tmuxMode \<noteq> tmuxControlMode \<and> isRunningOnWindows env"
    unfolding TszMain_handshake [OF assms] preamble_def
    using notices_differ p2
    by (auto simp: sendFiles_no_Stdout d e downgradeNotices_def)
qed

subsection \<open>Binary mode\<close>

text \<open>
  Claim C4 (binary-mode downgrade), as amended.  In a run of the sender that reaches
  \<^verbatim>\<open>sendConfig\<close>, the arguments from which the CFG frame is built ask for binary mode
  exactly when binary was requested on the command line, the peer's ACT frame
  reports \<open>support_binary\<close>, tmux is not in control mode and the platform is not
  Windows.  A request for binary mode never makes the sender fail: the exit code and
  the error \<^verbatim>\<open>sendFiles\<close> returns are those of the same run without the request.  The
  downgrade for control mode and the one for Windows are announced by a notice on
  stdout, written in these cases only and then as the first effect of the run; the
  downgrade for a peer without \<open>support_binary\<close> is silent.
\<close>

theorem binary_downgrade:
  assumes "checkPathsReadable env (File args) (Directory args) = Inr files"
    and "Overwrite args \<longrightarrow> checkDuplicateNames files = None"
    and "checkTmux env = Inr (tmuxMode, out, w)"
    and "MakeRaw env = None"
    and "recvAction env = Inr action" and "Confirm action"
    and "Directory args \<longrightarrow> SupportDirectory action"
  shows "(\<exists>pre rest.
           fst (TszMain env args) =
             pre @
             [RecvAction,
              SendConfig
                \<lparr>Overwrite = Overwrite args,
                 Binary = (Binary args \<and> SupportBinary action \<and>
                           tmuxMode \<noteq> tmuxControlMode \<and> \<not> isRunningOnWindows env),
                 Directory = Directory args\<rparr>
                action tmuxMode w] @ rest \<and>
           list_all (\<lambda>e. \<not> sends_frames e) pre) \<and>
         (Stdout controlModeNotice \<in> set (fst (TszMain env args)) \<longleftrightarrow>
            Binary args \<and> tmuxMode = tmuxControlMode) \<and>
         (Stdout windowsNotice \<in> set (fst (TszMain env args)) \<longleftrightarrow>
            Binary args \<and> tmuxMode \<noteq> tmuxControlMode \<and> isRunningOnWindows env) \<and>
         (Binary args \<and> tmuxMode = tmuxControlMode \<longrightarrow>
            hd (fst (TszMain env args)) = Stdout controlModeNotice) \<and>
         (Binary args \<and> tmuxMode \<noteq> tmuxControlMode \<and> isRunningOnWindows env \<longrightarrow>
            hd (fst (TszMain env args)) = Stdout windowsNotice) \<and>
         snd (TszMain env args) = 0 \<and>
         snd (TszMain env (args\<lparr>Binary := False\<rparr>)) = snd (TszMain env args) \<and>
         snd (sendFiles env files (args\<lparr>Binary := False\<rparr>) tmuxMode w) =
           snd (sendFiles env files args tmuxMode w)"
proof (intro conjI)
  let ?a = "effectiveArgs env tmuxMode args"
  have dir: "Directory ?a \<longrightarrow> SupportDirectory action"
    using assms(7) by (simp add: effectiveArgs_fields)
  from sendFiles_config [OF assms(5,6) dir, of files tmuxMode w] obtain rest where
    r: "fst (sendFiles env files ?a tmuxMode w) =
           [RecvAction,
            SendConfig \<lparr>Overwrite = Overwrite ?a,
                        Binary = (Binary ?a \<and> SupportBinary action),
                        Directory = Directory ?a\<rparr> action tmuxMode w] @ rest"
    by blast
  have b: "(Binary ?a \<and> SupportBinary action) =
      (Binary args \<and> SupportBinary action \<and> tmuxMode \<noteq> tmuxControlMode \<and>
       \<not> isRunningOnWindows env)"
    by (auto simp: effectiveArgs_fields)
  let ?pre = "preamble env tmuxMode args @
      [TermMakeRaw, NewTransfer out, GoWrapStdinInput, HandleServerSignal]"
  have "fst (TszMain env args) =
      ?pre @
      [RecvAction,
       SendConfig
         \<lparr>Overwrite = Overwrite args,
          Binary = (Binary args \<and> SupportBinary action \<and>
                    tmuxMode \<noteq> tmuxControlMode \<and> \<not> isRunningOnWindows env),
          Directory = Directory args\<rparr>
         action tmuxMode w] @
      (rest @ (case snd (sendFiles env files ?a tmuxMode w) of
                 None \<Rightarrow> [] | Some err \<Rightarrow> [ServerError err]) @
       [TermRestore] @ deferredReset env)"
    unfolding TszMain_handshake [OF assms(1-4)] r b
    by (simp add: effectiveArgs_fields)
  moreover have "list_all (\<lambda>e. \<not> sends_frames e) ?pre"
    by (simp add: preamble_no_frames)
  ultimately show "\<exists>pre rest.
           fst (TszMain env args) =
             pre @
             [RecvAction,
              SendConfig
                \<lparr>Overwrite = Overwrite args,
                 Binary = (Binary args \<and> SupportBinary action \<and>
                           tmuxMode \<noteq> tmuxControlMode \<and> \<not> isRunningOnWindows env),
                 Directory = Directory args\<rparr>
                action tmuxMode w] @ rest \<and>
           list_all (\<lambda>e. \<not> sends_frames e) pre"
    by blast
  show "Stdout controlModeNotice \<in> set (fst (TszMain env args)) \<longleftrightarrow>
            Binary args \<and> tmuxMode = tmuxControlMode"
    by (rule handshake_notices(1) [OF assms(1-4)])
  show "Stdout windowsNotice \<in> set (fst (TszMain env args)) \<longleftrightarrow>
            Binary args \<and> tmuxMode \<noteq> tmuxControlMode \<and> isRunningOnWindows env"
    by (rule handshake_notices(2) [OF assms(1-4)])
  show "Binary args \<and> tmuxMode = tmuxControlMode \<longrightarrow>
            hd (fst (TszMain env args)) = Stdout controlModeNotice"
    by (simp add: TszMain_handshake [OF assms(1-4)] preamble_def downgradeNotices_def)
  show "Binary args \<and> tmuxMode \<noteq> tmuxControlMode \<and> isRunningOnWindows env \<longrightarrow>
            hd (fst (TszMain env args)) = Stdout windowsNotice"
    by (simp add: TszMain_handshake [OF assms(1-4)] preamble_def downgradeNotices_def)
  show "snd (TszMain env args) = 0"
    by (simp add: TszMain_handshake [OF assms(1-4)])
  show "snd (TszMain env (args\<lparr>Binary := False\<rparr>)) = snd (TszMain env args)"
    by (rule TszMain_code_Binary)
  show "snd (sendFiles env files (args\<lparr>Binary := False\<rparr>) tmuxMode w) =
           snd (sendFiles env files args tmuxMode w)"
    by (rule sendFiles_error_Binary)
qed

theorem binary_downgrade_witness:
  "SendConfig \<lparr>Overwrite = False, Binary = False, Directory = False\<rparr>
     (example_action\<lparr>SupportBinary := False\<rparr>) noTmux (- 1)
     \<in> set (fst (TszMain (example_env\<lparr>recvAction := Inr (example_action\<lparr>SupportBinary := False\<rparr>)\<rparr>)
                       (example_args\<lparr>Binary := True\<rparr>))) \<and>
   Stdout controlModeNotice
     \<notin> set (fst (TszMain (example_env\<lparr>recvAction := Inr (example_action\<lparr>SupportBinary := False\<rparr>)\<rparr>)
                       (example_args\<lparr>Binary := True\<rparr>))) \<and>
   Stdout windowsNotice
     \<notin> set (fst (TszMain (example_env\<lparr>recvAction := Inr (example_action\<lparr>SupportBinary := False\<rparr>)\<rparr>)
                       (example_args\<lparr>Binary := True\<rparr>))) \<and>
   snd (TszMain (example_env\<lparr>recvAction := Inr (example_action\<lparr>SupportBinary := False\<rparr>)\<rparr>)
          (example_args\<lparr>Binary := True\<rparr>)) = 0"
proof -
  let ?act = "example_action\<lparr>SupportBinary := False\<rparr>"
  let ?env = "example_env\<lparr>recvAction := Inr ?act\<rparr>"
  let ?args = "example_args\<lparr>Binary := True\<rparr>"
  have a: "checkPathsReadable ?env (File ?args) (Directory ?args) = Inr [example_file ''a.txt'']"
    by (simp add: example_env_def example_args_def)
  have b: "Overwrite ?args \<longrightarrow> checkDuplicateNames [example_file ''a.txt''] = None"
    by (simp add: example_args_def)
  have c: "checkTmux ?env = Inr (noTmux, 1, - 1)" by (simp add: example_env_def)
  have d: "MakeRaw ?env = None" by (simp add: example_env_def)
  have e: "recvAction ?env = Inr ?act" by simp
  have f: "Confirm ?act" by (simp add: example_action_def)
  have g: "Directory ?args \<longrightarrow> SupportDirectory ?act" by (simp add: example_args_def)
  note t = binary_downgrade [OF a b c d e f g]
  from t obtain pre rest where
    "fst (TszMain ?env ?args) =
       pre @
       [RecvAction,
        SendConfig
          \<lparr>Overwrite = Overwrite ?args,
           Binary = (Binary ?args \<and> SupportBinary ?act \<and>
                     noTmux \<noteq> tmuxControlMode \<and> \<not> isRunningOnWindows ?env),
           Directory = Directory ?args\<rparr>
          ?act noTmux (- 1)] @ rest"
    by blast
  then have m: "SendConfig \<lparr>Overwrite = False, Binary = False, Directory = False\<rparr>
     ?act noTmux (- 1) \<in> set (fst (TszMain ?env ?args))"
    by (simp add: example_args_def)
  from t have n1: "Stdout controlModeNotice \<notin> set (fst (TszMain ?env ?args))"
    by simp
  from t have n2: "Stdout windowsNotice \<notin> set (fst (TszMain ?env ?args))"
    by (simp add: example_env_def)
  from t have z: "snd (TszMain ?env ?args) = 0" by blast
  from m n1 n2 z show ?thesis by blast
qed

text \<open>
  The claim as stated (the sender silently uses text mode) fails in tmux control mode:
  the sender announces the switch on stdout.
\<close>

theorem binary_downgrade_counterexample:
  "checkTmux (example_env\<lparr>checkTmux := Inr (tmuxControlMode, 1, 80)\<rparr>) =
     Inr (tmuxControlMode, 1, 80) \<and>
   Binary (example_args\<lparr>Binary := True\<rparr>) \<and>
   Stdout (''Binary download in tmux control mode is slower, auto switch to base64 mode.'' @
           [CHR 0x0A])
     \<in> set (fst (TszMain (example_env\<lparr>checkTmux := Inr (tmuxControlMode, 1, 80)\<rparr>)
                       (example_args\<lparr>Binary := True\<rparr>)))"
proof -
  let ?env = "example_env\<lparr>checkTmux := Inr (tmuxControlMode, 1, 80)\<rparr>"
  let ?args = "example_args\<lparr>Binary := True\<rparr>"
  have a: "checkPathsReadable ?env (File ?args) (Directory ?args) = Inr [example_file ''a.txt'']"
    by (simp add: example_env_def example_args_def)
  have b: "Overwrite ?args \<longrightarrow> checkDuplicateNames [example_file ''a.txt''] = None"
    by (simp add: example_args_def)
  have c: "checkTmux ?env = Inr (tmuxControlMode, 1, 80)" by simp
  have d: "MakeRaw ?env = None" by (simp add: example_env_def)
  from handshake_notices(1) [OF a b c d] c show ?thesis
    by (simp add: controlModeNotice_def)
qed

section \<open>The configuration file\<close>

lemma scanConfig_find:
  "scanConfig trim name lines =
     (case find (key_matches trim name) lines of
        None \<Rightarrow> None
      | Some line \<Rightarrow> if value_of trim line = [] then None else Some (value_of trim line))"
  by (induction lines) (auto simp: key_matches_def value_of_def Let_def split: option.splits)

text \<open>
  Claim C10 (configuration lookup).  For every key, \<^verbatim>\<open>getTrzszConfig\<close> returns \<^verbatim>\<open>nil\<close>
  when the home directory is unknown or the file cannot be opened; otherwise it looks
  at the first line whose trimmed key is the name, returning \<^verbatim>\<open>nil\<close> when there is no
  such line or when the trimmed value of that line is empty, and the trimmed value
  otherwise.  So a key that is present but empty is as good as absent: a value
  returned is never empty, and whenever the lookup of \<open>DefaultDownloadPath\<close> returns
  \<^verbatim>\<open>nil\<close>, \<^verbatim>\<open>chooseDownloadPath\<close> opens the picker.
\<close>

theorem config_lookup:
  "getTrzszConfig env name =
     (case UserHomeDir env of
        None \<Rightarrow> None
      | Some home \<Rightarrow>
          (case OpenLines env (Join env home ''.trzsz.conf'') of
             None \<Rightarrow> None
           | Some lines \<Rightarrow>
               (case find (key_matches (TrimSpace env) name) lines of
                  None \<Rightarrow> None
                | Some line \<Rightarrow>
                    if value_of (TrimSpace env) line = [] then None
                    else Some (value_of (TrimSpace env) line)))) \<and>
   (getTrzszConfig env ''DefaultDownloadPath'' = None \<longrightarrow>
      chooseDownloadPath env =
        (True, case SelectFile env of
                 Inl err \<Rightarrow> Inl err
               | Inr path \<Rightarrow> if path = [] then Inl ErrCanceled else Inr path)) \<and>
   (\<forall>p. getTrzszConfig env ''DefaultDownloadPath'' = Some p \<longrightarrow>
      p \<noteq> [] \<and> chooseDownloadPath env = (False, Inr p)) \<and>
   (\<forall>home lines line.
      UserHomeDir env = Some home \<and>
      OpenLines env (Join env home ''.trzsz.conf'') = Some lines \<and>
      find (key_matches (TrimSpace env) ''DefaultDownloadPath'') lines = Some line \<and>
      value_of (TrimSpace env) line = [] \<longrightarrow>
        getTrzszConfig env ''DefaultDownloadPath'' = None \<and> fst (chooseDownloadPath env))"
proof (intro conjI impI allI)
  show "getTrzszConfig env name =
     (case UserHomeDir env of
        None \<Rightarrow> None
      | Some home \<Rightarrow>
          (case OpenLines env (Join env home ''.trzsz.conf'') of
             None \<Rightarrow> None
           | Some lines \<Rightarrow>
               (case find (key_matches (TrimSpace env) name) lines of
                  None \<Rightarrow> None
                | Some line \<Rightarrow>
                    if value_of (TrimSpace env) line = [] then None
                    else Some (value_of (TrimSpace env) line))))"
    by (simp add: getTrzszConfig_def scanConfig_find split: option.splits)
next
  assume "getTrzszConfig env ''DefaultDownloadPath'' = None"
  then show "chooseDownloadPath env =
        (True, case SelectFile env of
                 Inl err \<Rightarrow> Inl err
               | Inr path \<Rightarrow> if path = [] then Inl ErrCanceled else Inr path)"
    by (simp add: chooseDownloadPath_def split: sum.splits)
next
  fix p assume p: "getTrzszConfig env ''DefaultDownloadPath'' = Some p"
  then show "chooseDownloadPath env = (False, Inr p)"
    by (simp add: chooseDownloadPath_def)
  from p show "p \<noteq> []"
    by (auto simp: getTrzszConfig_def scanConfig_find split: option.splits if_splits)
next
  fix home lines line
  assume a: "UserHomeDir env = Some home \<and>
      OpenLines env (Join env home ''.trzsz.conf'') = Some lines \<and>
      find (key_matches (TrimSpace env) ''DefaultDownloadPath'') lines = Some line \<and>
      value_of (TrimSpace env) line = []"
  then show n: "getTrzszConfig env ''DefaultDownloadPath'' = None"
    by (simp add: getTrzszConfig_def scanConfig_find)
  then show "fst (chooseDownloadPath env)"
    by (simp add: chooseDownloadPath_def)
qed

theorem config_lookup_witness:
  "getTrzszConfig example_os ''DefaultUploadPath'' = Some ''/home/u/up'' \<and>
   getTrzszConfig example_os ''DefaultDownloadPath'' = None \<and>
   getTrzszConfig example_os ''Missing'' = None \<and>
   chooseDownloadPath example_os = (True, Inr ''/home/u/dl'')"
proof -
  have k: "Index ''DefaultUploadPath = /home/u/up '' ''='' = Some 18"
    "Index ''DefaultDownloadPath =   '' ''='' = Some 20"
    "Index ''DefaultDownloadPath = /tmp'' ''='' = Some 20"
    "Index ''# trzsz'' ''='' = None"
    by simp_all
  have up: "getTrzszConfig example_os ''DefaultUploadPath'' = Some ''/home/u/up''"
    using config_lookup [of example_os "''DefaultUploadPath''"]
    by (simp add: example_os_def example_conf_def key_matches_def value_of_def k
        TrimSpaceASCII_def asciiSpace_def)
  have down: "getTrzszConfig example_os ''DefaultDownloadPath'' = None"
    using config_lookup [of example_os "''DefaultDownloadPath''"]
    by (simp add: example_os_def example_conf_def key_matches_def value_of_def k
        TrimSpaceASCII_def asciiSpace_def)
  have miss: "getTrzszConfig example_os ''Missing'' = None"
    using config_lookup [of example_os "''Missing''"]
    by (simp add: example_os_def example_conf_def key_matches_def value_of_def k
        TrimSpaceASCII_def asciiSpace_def)
  from config_lookup [of example_os "''DefaultDownloadPath''"] down
  have "chooseDownloadPath example_os = (True, Inr ''/home/u/dl'')"
    by (simp add: example_os_def)
  with up down miss show ?thesis by simp
qed

end
